theory Spec2Isabelle
  imports Complex_Main "HOL-Library.Sublist"
begin

section \<open>JavaScript values as the workflow sees them\<close>

text \<open>
  The workflow in \<^verbatim>\<open>worker/workflow.ts\<close> handles values that come out of
  \<^verbatim>\<open>JSON.parse\<close>: the body of the gateway's answer and the arguments of a tool call.
  Such a value is a \<open>json\<close>; the result of reading a property is a \<open>json option\<close>,
  where \<open>None\<close> is JavaScript's \<^verbatim>\<open>undefined\<close>. An object is the list of its own
  properties, looked up with \<open>map_of\<close>. A number is a rational: the workflow does no
  arithmetic on the numbers it receives, it only tests them for being zero.
\<close>

datatype json =
    JNull
  | JBool bool
  | JNum rat
  | JStr string
  | JArr "json list"
  | JObj "(string \<times> json) list"

text \<open>
  What the code can throw. \<open>Failure\<close> is an \<^verbatim>\<open>Error\<close> raised by a network
  operation (\<^verbatim>\<open>AI Gateway error (...)\<close>, a rejected \<^verbatim>\<open>fetch\<close>);
  \<open>StepExhausted\<close> is what a checkpointed step raises once its attempts are used up.
\<close>

datatype error =
    TypeError
  | SyntaxError
  | Failure string
  | StepExhausted string error

text \<open>\<^verbatim>\<open>typeof v\<close>.\<close>

fun typeof :: "json option \<Rightarrow> string" where
  "typeof None = ''undefined''"
| "typeof (Some JNull) = ''object''"
| "typeof (Some (JBool b)) = ''boolean''"
| "typeof (Some (JNum n)) = ''number''"
| "typeof (Some (JStr s)) = ''string''"
| "typeof (Some (JArr xs)) = ''object''"
| "typeof (Some (JObj kvs)) = ''object''"

text \<open>
  \<^verbatim>\<open>v.k\<close> for the property names the workflow reads (none of them is inherited from a
  built-in prototype, \<^verbatim>\<open>length\<close> of arrays and strings apart): reading a property of
  \<^verbatim>\<open>undefined\<close> or \<^verbatim>\<open>null\<close> throws a TypeError, a missing property is
  \<^verbatim>\<open>undefined\<close>.
\<close>

fun get_prop :: "json option \<Rightarrow> string \<Rightarrow> error + json option" where
  "get_prop None k = Inl TypeError"
| "get_prop (Some JNull) k = Inl TypeError"
| "get_prop (Some (JObj kvs)) k = Inr (map_of kvs k)"
| "get_prop (Some (JArr xs)) k =
     Inr (if k = ''length'' then Some (JNum (of_nat (length xs))) else None)"
| "get_prop (Some (JStr s)) k =
     Inr (if k = ''length'' then Some (JNum (of_nat (length s))) else None)"
| "get_prop (Some (JBool b)) k = Inr None"
| "get_prop (Some (JNum n)) k = Inr None"

text \<open>\<^verbatim>\<open>!v\<close>: the falsy values.\<close>

fun falsy :: "json option \<Rightarrow> bool" where
  "falsy None = True"
| "falsy (Some JNull) = True"
| "falsy (Some (JBool b)) = (\<not> b)"
| "falsy (Some (JNum n)) = (n = 0)"
| "falsy (Some (JStr s)) = (s = [])"
| "falsy (Some (JArr xs)) = False"
| "falsy (Some (JObj kvs)) = False"

text \<open>
  \<^verbatim>\<open>k in v\<close> for the property names the type guards test (none is an array index),
  used only behind \<^verbatim>\<open>typeof v === "object" && v !== null\<close>.
\<close>

fun in_op :: "string \<Rightarrow> json \<Rightarrow> bool" where
  "in_op k (JObj kvs) = (map_of kvs k \<noteq> None)"
| "in_op k (JArr xs) = (k = ''length'')"
| "in_op k v = False"

text \<open>\<^verbatim>\<open>Array.isArray(v)\<close>.\<close>

fun isArray :: "json option \<Rightarrow> bool" where
  "isArray (Some (JArr xs)) = True"
| "isArray v = False"

text \<open>\<^verbatim>\<open>v ?? undefined\<close> and \<^verbatim>\<open>v ?? null\<close>.\<close>

fun or_undefined :: "json option \<Rightarrow> json option" where
  "or_undefined None = None"
| "or_undefined (Some JNull) = None"
| "or_undefined (Some v) = Some v"

fun or_null :: "json option \<Rightarrow> json" where
  "or_null None = JNull"
| "or_null (Some v) = v"

text \<open>
  \<^verbatim>\<open>for (const x of v)\<close>: an array gives its elements, a string its characters as
  one-character strings, anything else is not iterable.
\<close>

fun iterate :: "json option \<Rightarrow> error + json list" where
  "iterate (Some (JArr xs)) = Inr xs"
| "iterate (Some (JStr s)) = Inr (map (\<lambda>c. JStr [c]) s)"
| "iterate v = Inl TypeError"

text \<open>Printing a turn number inside a template literal.\<close>

definition digit :: "nat \<Rightarrow> char" where
  "digit d = ''0123456789'' ! d"

function show_nat :: "nat \<Rightarrow> string" where
  "show_nat n = (if n < 10 then [digit n] else show_nat (n div 10) @ [digit (n mod 10)])"
  by pat_completeness auto
termination
  by (relation "measure id") auto

declare show_nat.simps [simp del]

section \<open>The data of \<^verbatim>\<open>worker/types.ts\<close>\<close>

datatype role = system | user | assistant | tool

text \<open>
  \<^verbatim>\<open>ChatMessage\<close>. The fields hold whatever the gateway sent, so they are JavaScript
  values; \<open>None\<close> is an absent (or \<^verbatim>\<open>undefined\<close>) field.
\<close>

record ChatMessage =
  role :: role
  content :: "json option"
  tool_calls :: "json option"
  tool_call_id :: "json option"

text \<open>\<^verbatim>\<open>AgentState\<close>; an absent \<open>result\<close> is \<open>None\<close>.\<close>

record AgentState =
  status :: string
  message :: string
  result :: "json option"

text \<open>
  \<^verbatim>\<open>ProgressUpdate\<close>. The key \<^verbatim>\<open>result\<close> may be missing from the object
  (\<open>None\<close>) or be there with a value, which may be \<^verbatim>\<open>undefined\<close>
  (\<open>Some None\<close>).
\<close>

record ProgressUpdate =
  pu_status :: string
  pu_message :: string
  pu_result :: "json option option"

datatype run_status = complete | max_turns_reached

text \<open>\<^verbatim>\<open>WorkflowResult\<close>; \<open>wr_result = None\<close> when the key is absent.\<close>

record WorkflowResult =
  wr_status :: run_status
  turns :: nat
  wr_result :: "json option"

text \<open>\<^verbatim>\<open>isChatCompletionResponse\<close>.\<close>

definition isChatCompletionResponse :: "json \<Rightarrow> bool" where
  "isChatCompletionResponse v =
     (if v = JNull \<or> typeof (Some v) \<noteq> ''object'' then False
      else (case (get_prop (Some v) ''id'', get_prop (Some v) ''model'', get_prop (Some v) ''choices'') of
              (Inr i, Inr m, Inr c) \<Rightarrow>
                typeof i = ''string'' \<and> typeof m = ''string'' \<and> isArray c
            | _ \<Rightarrow> False))"

section \<open>\<^verbatim>\<open>worker/tools.ts\<close>: the type guards\<close>

definition isSearchReposInput :: "json \<Rightarrow> bool" where
  "isSearchReposInput v =
     (typeof (Some v) = ''object'' \<and> v \<noteq> JNull \<and> in_op ''query'' v \<and>
      (case get_prop (Some v) ''query'' of Inr q \<Rightarrow> typeof q = ''string'' | Inl e \<Rightarrow> False))"

definition isGetRepoInput :: "json \<Rightarrow> bool" where
  "isGetRepoInput v =
     (typeof (Some v) = ''object'' \<and> v \<noteq> JNull \<and> in_op ''owner'' v \<and> in_op ''repo'' v \<and>
      (case get_prop (Some v) ''owner'' of Inr q \<Rightarrow> typeof q = ''string'' | Inl e \<Rightarrow> False) \<and>
      (case get_prop (Some v) ''repo'' of Inr q \<Rightarrow> typeof q = ''string'' | Inl e \<Rightarrow> False))"

section \<open>\<^verbatim>\<open>worker/agent.ts\<close>: the progress state\<close>

definition initialState :: AgentState where
  "initialState = \<lparr>status = ''idle'', message = '''', result = None\<rparr>"

text \<open>\<^verbatim>\<open>reset\<close> sets the state to idle with an empty message.\<close>

definition reset :: "AgentState \<Rightarrow> AgentState" where
  "reset st = \<lparr>status = ''idle'', message = '''', result = None\<rparr>"

text \<open>
  \<^verbatim>\<open>updateProgress\<close>: \<^verbatim>\<open>{ ...this.state, ...progress }\<close>. Every own property
  of \<open>progress\<close> overwrites the state's.
\<close>

definition updateProgress :: "AgentState \<Rightarrow> ProgressUpdate \<Rightarrow> AgentState" where
  "updateProgress st progress =
     \<lparr>status = pu_status progress,
      message = pu_message progress,
      result = (case pu_result progress of None \<Rightarrow> result st | Some r \<Rightarrow> r)\<rparr>"

section \<open>What the workflow does not own\<close>

text \<open>
  The network and the language's built-ins are parameters. The outside world is a state
  \<open>'w\<close> that every network operation reads and changes; an operation either returns a
  value or throws.
  \<^item> \<open>callAIGateway\<close>: the POST to the gateway with the messages so far (model, token
    limit and tool definitions are constants of the request); a non-2xx answer or a body
    that is not JSON throws.
  \<^item> \<open>searchRepos_run\<close>, \<open>getRepo_run\<close>: \<^verbatim>\<open>searchReposTool.run\<close> and
    \<^verbatim>\<open>getRepoTool.run\<close>, two GitHub requests. They return a string, also for a
    non-2xx answer, and throw when the request itself fails or the body is not what they
    expect.
  \<^item> \<open>JSON_parse\<close>: \<^verbatim>\<open>JSON.parse\<close>, \<open>None\<close> where it throws a SyntaxError.
  \<^item> \<open>ToString\<close>: the string a value that is not a string becomes inside a template
    literal or as the argument of \<^verbatim>\<open>JSON.parse\<close>.
\<close>

record 'w env =
  callAIGateway :: "ChatMessage list \<Rightarrow> 'w \<Rightarrow> (error + json) \<times> 'w"
  searchRepos_run :: "json \<Rightarrow> 'w \<Rightarrow> (error + string) \<times> 'w"
  getRepo_run :: "json \<Rightarrow> 'w \<Rightarrow> (error + string) \<times> 'w"
  JSON_parse :: "string \<Rightarrow> json option"
  ToString :: "json option \<Rightarrow> string"

definition to_string :: "'w env \<Rightarrow> json option \<Rightarrow> string" where
  "to_string env v = (case v of Some (JStr s) \<Rightarrow> s | _ \<Rightarrow> ToString env v)"

text \<open>
  The state a run works on: its \<open>messages\<close> array, the agent object's state together
  with the states it has broadcast to its observers (\<open>notified\<close>, oldest first), the
  step records of the workflow instance (\<open>steps\<close>: key and recorded result, newest
  first) and the outside world.
\<close>

record 'w state =
  messages :: "ChatMessage list"
  agent :: AgentState
  notified :: "AgentState list"
  steps :: "(string \<times> json) list"
  world :: 'w

text \<open>
  \<^verbatim>\<open>await agent.updateProgress(u)\<close>: the agent sets its state, which notifies the
  observers. The call is taken to reach the agent and to deliver the update object as the
  workflow wrote it.
\<close>

definition agent_updateProgress :: "ProgressUpdate \<Rightarrow> 'w state \<Rightarrow> 'w state" where
  "agent_updateProgress u s =
     s\<lparr>agent := updateProgress (agent s) u,
       notified := notified s @ [updateProgress (agent s) u]\<rparr>"

text \<open>\<^verbatim>\<open>await agent.reset()\<close>.\<close>

definition agent_reset :: "'w state \<Rightarrow> 'w state" where
  "agent_reset s = s\<lparr>agent := reset (agent s), notified := notified s @ [reset (agent s)]\<rparr>"

section \<open>The checkpointed step\<close>

text \<open>
  Modelled from the spec: \<^verbatim>\<open>step.do\<close> is the Workflows runtime
  (\<^verbatim>\<open>cloudflare:workers\<close>), which is not among the sources. Section 4.1 of the
  specification: the first call for a key runs the operation; a success is recorded under
  the key and returned; a failure is retried until the maximum attempt count is reached,
  and the step then fails with StepExhausted(key, lastError); a call for a key that has a
  recorded success returns the recorded result without running the operation. The delay
  between attempts is time and is not modelled.
\<close>

fun attempts :: "nat \<Rightarrow> ('w \<Rightarrow> (error + json) \<times> 'w) \<Rightarrow> 'w \<Rightarrow> (error + json) \<times> 'w" where
  "attempts n operation w =
     (case operation w of
        (Inr v, w') \<Rightarrow> (Inr v, w')
      | (Inl e, w') \<Rightarrow> (case n of 0 \<Rightarrow> (Inl e, w') | Suc m \<Rightarrow> attempts m operation w'))"

declare attempts.simps [simp del]

definition step_do ::
  "string \<Rightarrow> nat \<Rightarrow> ('w \<Rightarrow> (error + json) \<times> 'w) \<Rightarrow> 'w state \<Rightarrow> (error + json) \<times> 'w state" where
  "step_do key limit operation s =
     (case map_of (steps s) key of
        Some v \<Rightarrow> (Inr v, s)
      | None \<Rightarrow>
          (case attempts (limit - 1) operation (world s) of
             (Inr v, w') \<Rightarrow> (Inr v, s\<lparr>steps := (key, v) # steps s, world := w'\<rparr>)
           | (Inl e, w') \<Rightarrow> (Inl (StepExhausted key e), s\<lparr>world := w'\<rparr>)))"

section \<open>\<^verbatim>\<open>worker/workflow.ts\<close>: the agent loop\<close>

definition llm_key :: "nat \<Rightarrow> string" where
  "llm_key turn = ''llm-turn-'' @ show_nat turn"

definition tool_key :: "'w env \<Rightarrow> nat \<Rightarrow> json option \<Rightarrow> string" where
  "tool_key env turn tid = ''tool-'' @ show_nat turn @ ''-'' @ to_string env tid"

definition initialUpdate :: ProgressUpdate where
  "initialUpdate =
     \<lparr>pu_status = ''searching'', pu_message = ''Starting analysis...'',
      pu_result = Some (Some (JStr []))\<rparr>"

definition turnUpdate :: "nat \<Rightarrow> ProgressUpdate" where
  "turnUpdate turn =
     \<lparr>pu_status = ''analyzing'',
      pu_message = ''Processing turn '' @ show_nat (turn + 1) @ ''...'',
      pu_result = None\<rparr>"

definition completeUpdate :: "json option \<Rightarrow> ProgressUpdate" where
  "completeUpdate c =
     \<lparr>pu_status = ''complete'', pu_message = ''Analysis complete!'',
      pu_result = Some (or_undefined c)\<rparr>"

definition toolUpdate :: "'w env \<Rightarrow> json option \<Rightarrow> ProgressUpdate" where
  "toolUpdate env name =
     \<lparr>pu_status = ''fetching'',
      pu_message = ''Using tool: '' @ to_string env name @ ''...'',
      pu_result = None\<rparr>"

text \<open>
  The callback of the LLM step: the gateway call; the
  \<^verbatim>\<open>JSON.parse(JSON.stringify(result))\<close> round trip leaves a JSON value as it is.
\<close>

definition llm_callback :: "'w env \<Rightarrow> ChatMessage list \<Rightarrow> 'w \<Rightarrow> (error + json) \<times> 'w" where
  "llm_callback env msgs w = callAIGateway env msgs w"

text \<open>
  The callback of a tool step: parse the arguments, then switch on the tool's name. The
  strings it returns are the step's result.
\<close>

definition tool_callback :: "'w env \<Rightarrow> json \<Rightarrow> 'w \<Rightarrow> (error + json) \<times> 'w" where
  "tool_callback env toolCall w =
     (case get_prop (Some toolCall) ''function'' of
        Inl e \<Rightarrow> (Inl e, w)
      | Inr f \<Rightarrow>
     (case get_prop f ''arguments'' of
        Inl e \<Rightarrow> (Inl e, w)
      | Inr a \<Rightarrow>
     (case JSON_parse env (to_string env a) of
        None \<Rightarrow> (Inl SyntaxError, w)
      | Some args \<Rightarrow>
     (case get_prop f ''name'' of
        Inl e \<Rightarrow> (Inl e, w)
      | Inr name \<Rightarrow>
          if name = Some (JStr ''search_repos'') then
            (if \<not> isSearchReposInput args
             then (Inr (JStr ''Invalid arguments for search_repos''), w)
             else (case searchRepos_run env args w of
                     (Inl e, w') \<Rightarrow> (Inl e, w')
                   | (Inr r, w') \<Rightarrow> (Inr (JStr r), w')))
          else if name = Some (JStr ''get_repo'') then
            (if \<not> isGetRepoInput args
             then (Inr (JStr ''Invalid arguments for get_repo''), w)
             else (case getRepo_run env args w of
                     (Inl e, w') \<Rightarrow> (Inl e, w')
                   | (Inr r, w') \<Rightarrow> (Inr (JStr r), w')))
          else (Inr (JStr (''Unknown tool: '' @ to_string env name)), w)))))"

text \<open>
  \<^verbatim>\<open>for (const toolCall of toolCalls) { ... }\<close>: publish, run the tool step, push the
  tool message. \<open>Some e\<close> is an exception leaving the loop.
\<close>

fun tool_calls_loop :: "'w env \<Rightarrow> nat \<Rightarrow> json list \<Rightarrow> 'w state \<Rightarrow> error option \<times> 'w state" where
  "tool_calls_loop env turn [] s = (None, s)"
| "tool_calls_loop env turn (toolCall # rest) s =
     (case get_prop (Some toolCall) ''function'' of
        Inl e \<Rightarrow> (Some e, s)
      | Inr f \<Rightarrow>
     (case get_prop f ''name'' of
        Inl e \<Rightarrow> (Some e, s)
      | Inr name \<Rightarrow>
     (case get_prop (Some toolCall) ''id'' of
        Inl e \<Rightarrow> (Some e, agent_updateProgress (toolUpdate env name) s)
      | Inr tid \<Rightarrow>
     (case step_do (tool_key env turn tid) 2 (tool_callback env toolCall)
             (agent_updateProgress (toolUpdate env name) s) of
        (Inl e, s2) \<Rightarrow> (Some e, s2)
      | (Inr toolResult, s2) \<Rightarrow>
          tool_calls_loop env turn rest
            (s2\<lparr>messages := messages s2 @
                 [\<lparr>role = tool, content = Some toolResult, tool_calls = None,
                   tool_call_id = tid\<rparr>]\<rparr>)))))"

text \<open>\<^verbatim>\<open>v[0]\<close>.\<close>

fun index0 :: "json option \<Rightarrow> error + json option" where
  "index0 None = Inl TypeError"
| "index0 (Some JNull) = Inl TypeError"
| "index0 (Some (JArr xs)) = Inr (case xs of [] \<Rightarrow> None | x # _ \<Rightarrow> Some x)"
| "index0 (Some (JStr s)) = Inr (case s of [] \<Rightarrow> None | c # _ \<Rightarrow> Some (JStr [c]))"
| "index0 (Some (JObj kvs)) = Inr (map_of kvs ''0'')"
| "index0 (Some (JBool b)) = Inr None"
| "index0 (Some (JNum n)) = Inr None"

text \<open>How one pass through the body of the \<^verbatim>\<open>for\<close> loop ends.\<close>

datatype flow = Continue | Return WorkflowResult | Throw error

text \<open>The body from \<^verbatim>\<open>const assistantMessage\<close> on, for a truthy first choice.\<close>

definition handle_choice :: "'w env \<Rightarrow> nat \<Rightarrow> json option \<Rightarrow> 'w state \<Rightarrow> flow \<times> 'w state" where
  "handle_choice env turn choice s =
     (case get_prop choice ''message'' of
        Inl e \<Rightarrow> (Throw e, s)
      | Inr msg \<Rightarrow>
     (case get_prop msg ''content'' of
        Inl e \<Rightarrow> (Throw e, s)
      | Inr c \<Rightarrow>
     (case get_prop msg ''tool_calls'' of
        Inl e \<Rightarrow> (Throw e, s)
      | Inr tcs \<Rightarrow>
     (let s3 = s\<lparr>messages := messages s @
                  [\<lparr>role = assistant, content = c, tool_calls = tcs, tool_call_id = None\<rparr>]\<rparr>
      in
     (case get_prop choice ''finish_reason'' of
        Inl e \<Rightarrow> (Throw e, s3)
      | Inr fr \<Rightarrow>
          if fr = Some (JStr ''stop'') \<or> falsy tcs \<or> get_prop tcs ''length'' = Inr (Some (JNum 0))
          then (Return \<lparr>wr_status = complete, turns = turn + 1, wr_result = Some (or_null c)\<rparr>,
                agent_updateProgress (completeUpdate c) s3)
          else if falsy tcs then (Continue, s3)
          else (case iterate tcs of
                  Inl e \<Rightarrow> (Throw e, s3)
                | Inr xs \<Rightarrow>
                    (case tool_calls_loop env turn xs s3 of
                       (Some e, s4) \<Rightarrow> (Throw e, s4)
                     | (None, s4) \<Rightarrow> (Continue, s4))))))))"

text \<open>The body of the \<^verbatim>\<open>for\<close> loop over the turns.\<close>

definition turn_body :: "'w env \<Rightarrow> nat \<Rightarrow> 'w state \<Rightarrow> flow \<times> 'w state" where
  "turn_body env turn s =
     (case step_do (llm_key turn) 3
             (llm_callback env (messages s)) (agent_updateProgress (turnUpdate turn) s) of
        (Inl e, s2) \<Rightarrow> (Throw e, s2)
      | (Inr stepResult, s2) \<Rightarrow>
          if \<not> isChatCompletionResponse stepResult then (Continue, s2)
          else
            (case get_prop (Some stepResult) ''choices'' of
               Inl e \<Rightarrow> (Throw e, s2)
             | Inr choices \<Rightarrow>
                 if get_prop choices ''length'' = Inr (Some (JNum 0)) then (Continue, s2)
                 else
                   (case index0 choices of
                      Inl e \<Rightarrow> (Throw e, s2)
                    | Inr choice \<Rightarrow>
                        if falsy choice then (Continue, s2)
                        else handle_choice env turn choice s2)))"

text \<open>
  \<^verbatim>\<open>for (let turn = 0; turn < MAX_AGENT_TURNS; turn++)\<close> from \<open>turn\<close> on, and the
  \<^verbatim>\<open>return\<close> after it. \<^verbatim>\<open>MAX_AGENT_TURNS\<close> comes from
  \<^verbatim>\<open>worker/constants.ts\<close>, which is not among the sources: its value is a
  parameter. A thrown error leaves \<^verbatim>\<open>run\<close> (\<open>Inl\<close>).
\<close>

function loop :: "'w env \<Rightarrow> nat \<Rightarrow> nat \<Rightarrow> 'w state \<Rightarrow> (error + WorkflowResult) \<times> 'w state" where
  "loop env MAX_AGENT_TURNS turn s =
     (if turn < MAX_AGENT_TURNS then
        (case turn_body env turn s of
           (Continue, s') \<Rightarrow> loop env MAX_AGENT_TURNS (Suc turn) s'
         | (Return r, s') \<Rightarrow> (Inr r, s')
         | (Throw e, s') \<Rightarrow> (Inl e, s'))
      else (Inr \<lparr>wr_status = max_turns_reached, turns = MAX_AGENT_TURNS, wr_result = None\<rparr>, s))"
  by pat_completeness auto
termination
  by (relation "measure (\<lambda>(env, MAX_AGENT_TURNS, turn, s). MAX_AGENT_TURNS - turn)") auto

declare loop.simps [simp del]

text \<open>
  \<^verbatim>\<open>AgentWorkflow.run\<close>. The state passed in carries the agent's state, the step
  records of this workflow instance (empty for a new instance, filled when the engine
  replays \<^verbatim>\<open>run\<close> after a restart) and the world; \<open>messages\<close> starts afresh.
\<close>

definition run :: "'w env \<Rightarrow> nat \<Rightarrow> string \<Rightarrow> 'w state \<Rightarrow> (error + WorkflowResult) \<times> 'w state" where
  "run env MAX_AGENT_TURNS task s =
     loop env MAX_AGENT_TURNS 0
       (agent_updateProgress initialUpdate
          (s\<lparr>messages := [\<lparr>role = user, content = Some (JStr task), tool_calls = None,
                           tool_call_id = None\<rparr>]\<rparr>))"

section \<open>The control surface\<close>

text \<open>
  Modelled from the spec: \<^verbatim>\<open>instance.status()\<close> belongs to the Workflows runtime, which
  is not among the sources. Sections 4.2 and 7 of the specification: a Run ends in one of
  the statuses \<^verbatim>\<open>complete\<close>, \<^verbatim>\<open>error\<close> and \<^verbatim>\<open>max_turns_reached\<close>; a Run that an
  error aborts has status \<^verbatim>\<open>error\<close>, with the underlying cause; otherwise the status is
  the one of the value that \<^verbatim>\<open>run\<close> returned, which is the output.
\<close>

record InstanceStatus =
  is_status :: string
  is_error :: "error option"
  is_output :: "WorkflowResult option"

definition instance_status :: "error + WorkflowResult \<Rightarrow> InstanceStatus" where
  "instance_status r =
     (case r of
        Inl e \<Rightarrow> \<lparr>is_status = ''error'', is_error = Some e, is_output = None\<rparr>
      | Inr res \<Rightarrow>
          \<lparr>is_status =
             (case wr_status res of
                complete \<Rightarrow> ''complete''
              | max_turns_reached \<Rightarrow> ''max_turns_reached''),
           is_error = None, is_output = Some res\<rparr>)"

text \<open>
  \<^verbatim>\<open>WorkflowStatusResponse\<close> and the route \<^verbatim>\<open>GET /api\<close> of the worker, for an
  instance id that is given: the answer carries the status and the output of the instance.
\<close>

record WorkflowStatusResponse =
  wsr_status :: string
  wsr_output :: "WorkflowResult option"

definition api_status :: "InstanceStatus \<Rightarrow> WorkflowStatusResponse" where
  "api_status st = \<lparr>wsr_status = is_status st, wsr_output = is_output st\<rparr>"

section \<open>Notions used to state the properties\<close>

text \<open>The \<^verbatim>\<open>id\<close> of a requested tool call, as the loop reads it.\<close>

definition tool_call_id_of :: "json \<Rightarrow> json option" where
  "tool_call_id_of tc = (case get_prop (Some tc) ''id'' of Inr i \<Rightarrow> i | Inl e \<Rightarrow> None)"

text \<open>
  The tool calls that the \<^verbatim>\<open>tool_calls\<close> of an assistant message request, in the order
  in which the loop goes through them, and their ids.
\<close>

definition requested :: "json option \<Rightarrow> json list" where
  "requested tcs = (case iterate tcs of Inr xs \<Rightarrow> xs | Inl e \<Rightarrow> [])"

definition requested_ids :: "json option \<Rightarrow> json option set" where
  "requested_ids tcs = tool_call_id_of ` set (requested tcs)"

text \<open>
  A transcript is \<open>matched\<close> when every tool message answers a tool call requested by
  an assistant message that stands before it.
\<close>

definition matched :: "ChatMessage list \<Rightarrow> bool" where
  "matched ms \<longleftrightarrow>
     (\<forall>i<length ms. role (ms ! i) = tool \<longrightarrow>
        (\<exists>j<i. role (ms ! j) = assistant \<and>
                tool_call_id (ms ! i) \<in> requested_ids (tool_calls (ms ! j))))"

text \<open>
  Every pass through the loop body begins by publishing the status \<^verbatim>\<open>analyzing\<close>,
  and nothing else publishes it: the number of such states among the notifications is the
  number of iterations the loop has started.
\<close>

definition iterations :: "AgentState list \<Rightarrow> nat" where
  "iterations ns = length (filter (\<lambda>a. status a = ''analyzing'') ns)"

text \<open>
  A gateway answer on which the loop skips the turn: it fails
  \<open>isChatCompletionResponse\<close>, or its \<^verbatim>\<open>choices\<close> are empty, or the first choice
  is falsy (\<^verbatim>\<open>null\<close>, say).
\<close>

definition skips :: "json \<Rightarrow> bool" where
  "skips v \<longleftrightarrow>
     \<not> isChatCompletionResponse v \<or>
     (case get_prop (Some v) ''choices'' of
        Inr (Some (JArr [])) \<Rightarrow> True
      | Inr (Some (JArr (c # cs))) \<Rightarrow> falsy (Some c)
      | _ \<Rightarrow> False)"

text \<open>
  \<open>later env s s'\<close>: the state \<open>s'\<close> is reached from \<open>s\<close> by any number of further
  steps, turns of the loop, or whole executions of \<^verbatim>\<open>run\<close> (the engine replays
  \<^verbatim>\<open>run\<close> from its start when an instance resumes).
\<close>

inductive later :: "'w env \<Rightarrow> 'w state \<Rightarrow> 'w state \<Rightarrow> bool" for env :: "'w env" where
  now: "later env s s"
| step: "later env s s1 \<Longrightarrow> step_do key limit operation s1 = (r, s2) \<Longrightarrow> later env s s2"
| turn: "later env s s1 \<Longrightarrow> turn_body env t s1 = (fl, s2) \<Longrightarrow> later env s s2"
| rerun: "later env s s1 \<Longrightarrow> run env MAX_AGENT_TURNS task s1 = (res, s2) \<Longrightarrow> later env s s2"

section \<open>A scripted environment\<close>

text \<open>
  An environment for running the workflow on examples. The world is the number of gateway
  calls made so far; the gateway answers the \<open>n\<close>-th call with the \<open>n\<close>-th entry of a
  script and fails once the script is used up. Both tools succeed with a fixed string, and
  \<^verbatim>\<open>JSON.parse\<close> is given on the three argument strings the examples use:
  \<^verbatim>\<open>{}\<close>, \<^verbatim>\<open>{"query":"x"}\<close> (the string \<open>query_x\<close>) and \<^verbatim>\<open>{not json\<close>, which is
  not JSON.
\<close>

definition query_x :: string where
  "query_x = ''{'' @ [CHR 0x22] @ ''query'' @ [CHR 0x22] @ '':'' @ [CHR 0x22] @ ''x'' @ [CHR 0x22] @ ''}''"

definition example_parse :: "string \<Rightarrow> json option" where
  "example_parse a =
     (if a = ''{}'' then Some (JObj [])
      else if a = query_x then Some (JObj [(''query'', JStr ''x'')])
      else None)"

definition scripted_env :: "(error + json) list \<Rightarrow> nat env" where
  "scripted_env script =
     \<lparr>callAIGateway =
        (\<lambda>msgs w. (if w < length script then script ! w else Inl (Failure ''gateway down''),
                    Suc w)),
      searchRepos_run = (\<lambda>args w. (Inr ''[]'', w)),
      getRepo_run = (\<lambda>args w. (Inr ''{}'', w)),
      JSON_parse = example_parse,
      ToString = (\<lambda>v. ''undefined'')\<rparr>"

text \<open>A new workflow instance beside an agent in its initial state.\<close>

definition fresh :: "nat state" where
  "fresh = \<lparr>messages = [], agent = initialState, notified = [], steps = [], world = 0\<rparr>"

text \<open>Gateway answers of the declared shape.\<close>

definition response :: "json list \<Rightarrow> json" where
  "response cs = JObj [(''id'', JStr ''r''), (''model'', JStr ''m''), (''choices'', JArr cs)]"

definition stop_choice :: "string \<Rightarrow> json" where
  "stop_choice c =
     JObj [(''message'', JObj [(''role'', JStr ''assistant''), (''content'', JStr c)]),
           (''finish_reason'', JStr ''stop'')]"

definition tool_call :: "string \<Rightarrow> string \<Rightarrow> string \<Rightarrow> json" where
  "tool_call i n a =
     JObj [(''id'', JStr i), (''type'', JStr ''function''),
           (''function'', JObj [(''name'', JStr n), (''arguments'', JStr a)])]"

definition tool_choice :: "string \<Rightarrow> json list \<Rightarrow> json" where
  "tool_choice fr tcs =
     JObj [(''message'', JObj [(''role'', JStr ''assistant''), (''content'', JNull),
                              (''tool_calls'', JArr tcs)]),
           (''finish_reason'', JStr fr)]"

text \<open>An environment whose gateway answers every call with the same value.\<close>

definition constant_env :: "json \<Rightarrow> nat env" where
  "constant_env v = (scripted_env [])\<lparr>callAIGateway := (\<lambda>msgs w. (Inr v, Suc w))\<rparr>"

section \<open>Auxiliary facts\<close>

subsection \<open>The publish and the step\<close>

lemma agent_updateProgress_simps [simp]:
  "messages (agent_updateProgress u s) = messages s"
  "steps (agent_updateProgress u s) = steps s"
  "world (agent_updateProgress u s) = world s"
  "agent (agent_updateProgress u s) = updateProgress (agent s) u"
  "notified (agent_updateProgress u s) = notified s @ [updateProgress (agent s) u]"
  by (simp_all add: agent_updateProgress_def)

lemma step_do_frame:
  assumes "step_do key limit operation s = (r, s')"
  shows "messages s' = messages s" and "agent s' = agent s" and "notified s' = notified s"
  using assms by (auto simp: step_do_def split: option.splits prod.splits sum.splits)

lemma step_do_recorded:
  assumes "step_do key limit operation s = (Inr v, s')"
  shows "map_of (steps s') key = Some v"
  using assms by (auto simp: step_do_def split: option.splits prod.splits sum.splits)

lemma step_do_hit:
  assumes "map_of (steps s) key = Some v"
  shows "step_do key limit operation s = (Inr v, s)"
  using assms by (simp add: step_do_def)

lemma step_do_keeps:
  assumes "step_do key limit operation s = (r, s')" and "map_of (steps s) k = Some v"
  shows "map_of (steps s') k = Some v"
  using assms by (auto simp: step_do_def split: option.splits prod.splits sum.splits)

subsection \<open>Case analysis of the loop bodies\<close>

lemma tool_calls_loop_Cons_cases:
  assumes "tool_calls_loop env turn (tc # rest) s = (r, s')"
  obtains
    (no_name) e where "r = Some e" and "s' = s"
  | (no_id) name e where "r = Some e" and "s' = agent_updateProgress (toolUpdate env name) s"
  | (step_failed) name tid e where
      "step_do (tool_key env turn tid) 2 (tool_callback env tc)
         (agent_updateProgress (toolUpdate env name) s) = (Inl e, s')"
      and "r = Some e"
  | (step_done) name tid v s2 where
      "get_prop (Some tc) ''id'' = Inr tid"
      and "step_do (tool_key env turn tid) 2 (tool_callback env tc)
         (agent_updateProgress (toolUpdate env name) s) = (Inr v, s2)"
      and "tool_calls_loop env turn rest
         (s2\<lparr>messages := messages s2 @
            [\<lparr>role = tool, content = Some v, tool_calls = None, tool_call_id = tid\<rparr>]\<rparr>) = (r, s')"
  using assms by (auto split: sum.splits prod.splits)

lemma tool_calls_loop_keeps:
  "tool_calls_loop env turn tcs s = (r, s') \<Longrightarrow> map_of (steps s) k = Some x
     \<Longrightarrow> map_of (steps s') k = Some x"
proof (induction tcs arbitrary: s)
  case Nil
  then show ?case by simp
next
  case (Cons tc rest)
  from Cons.prems(1) show ?case
  proof (cases rule: tool_calls_loop_Cons_cases)
    case (no_name e)
    then show ?thesis using Cons.prems by simp
  next
    case (no_id name e)
    then show ?thesis using Cons.prems by simp
  next
    case (step_failed name tid e)
    then show ?thesis using Cons.prems step_do_keeps by fastforce
  next
    case (step_done name tid v s2)
    have "map_of (steps s2) k = Some x"
      using step_do_keeps [OF step_done(2)] Cons.prems(2) by simp
    then show ?thesis using Cons.IH [OF step_done(3)] by simp
  qed
qed

lemma handle_choice_cases:
  assumes "handle_choice env turn choice s = (fl, s')"
  obtains
    (no_message) e where "fl = Throw e" and "s' = s"
  | (no_finish) c tcs e where "fl = Throw e"
      and "s' = s\<lparr>messages := messages s @
             [\<lparr>role = assistant, content = c, tool_calls = tcs, tool_call_id = None\<rparr>]\<rparr>"
  | (stop) msg c tcs fr where
      "get_prop choice ''message'' = Inr msg" and "get_prop msg ''content'' = Inr c"
      and "get_prop msg ''tool_calls'' = Inr tcs" and "get_prop choice ''finish_reason'' = Inr fr"
      and "fr = Some (JStr ''stop'') \<or> falsy tcs \<or> get_prop tcs ''length'' = Inr (Some (JNum 0))"
      and "fl = Return \<lparr>wr_status = complete, turns = turn + 1, wr_result = Some (or_null c)\<rparr>"
      and "s' = agent_updateProgress (completeUpdate c)
             (s\<lparr>messages := messages s @
               [\<lparr>role = assistant, content = c, tool_calls = tcs, tool_call_id = None\<rparr>]\<rparr>)"
  | (not_iterable) c tcs e where "fl = Throw e"
      and "s' = s\<lparr>messages := messages s @
             [\<lparr>role = assistant, content = c, tool_calls = tcs, tool_call_id = None\<rparr>]\<rparr>"
  | (tools) msg c tcs xs r where
      "get_prop choice ''message'' = Inr msg" and "get_prop msg ''content'' = Inr c"
      and "get_prop msg ''tool_calls'' = Inr tcs"
      and "iterate tcs = Inr xs"
      and "tool_calls_loop env turn xs
             (s\<lparr>messages := messages s @
               [\<lparr>role = assistant, content = c, tool_calls = tcs, tool_call_id = None\<rparr>]\<rparr>) = (r, s')"
      and "fl = (case r of None \<Rightarrow> Continue | Some e \<Rightarrow> Throw e)"
  using assms unfolding handle_choice_def Let_def
  by (auto split: sum.splits prod.splits if_splits option.splits)

lemma isChatCompletionResponse_iff:
  "isChatCompletionResponse v \<longleftrightarrow>
     (\<exists>kvs i m cs. v = JObj kvs \<and> map_of kvs ''id'' = Some (JStr i) \<and>
        map_of kvs ''model'' = Some (JStr m) \<and> map_of kvs ''choices'' = Some (JArr cs))"
proof (cases v)
  case (JObj kvs)
  have str: "typeof x = ''string'' \<longleftrightarrow> (\<exists>t. x = Some (JStr t))" for x
    by (cases x rule: typeof.cases) simp_all
  have arr: "isArray x \<longleftrightarrow> (\<exists>cs. x = Some (JArr cs))" for x
    by (cases x rule: isArray.cases) simp_all
  show ?thesis
    by (simp add: JObj isChatCompletionResponse_def str arr)
qed (simp_all add: isChatCompletionResponse_def)

lemma isChatCompletionResponse_choices:
  assumes "isChatCompletionResponse v"
  obtains cs where "get_prop (Some v) ''choices'' = Inr (Some (JArr cs))"
  using assms by (auto simp: isChatCompletionResponse_iff)

lemma turn_body_cases:
  assumes "turn_body env turn s = (fl, s')"
  obtains
    (llm_failed) e where
      "step_do (llm_key turn) 3 (llm_callback env (messages s))
         (agent_updateProgress (turnUpdate turn) s) = (Inl e, s')"
      and "fl = Throw e"
  | (skipped) v where
      "step_do (llm_key turn) 3 (llm_callback env (messages s))
         (agent_updateProgress (turnUpdate turn) s) = (Inr v, s')"
      and "fl = Continue"
  | (chosen) v s2 choice where
      "step_do (llm_key turn) 3 (llm_callback env (messages s))
         (agent_updateProgress (turnUpdate turn) s) = (Inr v, s2)"
      and "isChatCompletionResponse v"
      and "handle_choice env turn choice s2 = (fl, s')"
proof (cases "step_do (llm_key turn) 3 (llm_callback env (messages s))
         (agent_updateProgress (turnUpdate turn) s)")
  case (Pair r s2)
  show ?thesis
  proof (cases r)
    case (Inl e)
    with Pair assms llm_failed show ?thesis by (simp add: turn_body_def)
  next
    case (Inr v)
    show ?thesis
    proof (cases "isChatCompletionResponse v")
      case False
      with Pair Inr assms skipped show ?thesis by (simp add: turn_body_def)
    next
      case True
      then obtain cs where cs: "get_prop (Some v) ''choices'' = Inr (Some (JArr cs))"
        by (rule isChatCompletionResponse_choices)
      show ?thesis
      proof (cases cs)
        case Nil
        with Pair Inr True cs assms skipped show ?thesis by (simp add: turn_body_def)
      next
        case (Cons c rest)
        show ?thesis
        proof (cases "falsy (Some c)")
          case True
          with Pair Inr \<open>isChatCompletionResponse v\<close> cs Cons assms skipped show ?thesis
            by (simp add: turn_body_def)
        next
          case False
          with Pair Inr \<open>isChatCompletionResponse v\<close> cs Cons assms
          have "handle_choice env turn (Some c) s2 = (fl, s')"
            by (simp add: turn_body_def)
          with Pair Inr \<open>isChatCompletionResponse v\<close> chosen show ?thesis by blast
        qed
      qed
    qed
  qed
qed

subsection \<open>What a turn appends to the transcript\<close>

lemma tool_calls_loop_messages:
  "tool_calls_loop env turn tcs s = (r, s') \<Longrightarrow>
     \<exists>ms. messages s' = messages s @ ms \<and> (\<forall>m\<in>set ms. role m = tool) \<and>
          map tool_call_id ms = map tool_call_id_of (take (length ms) tcs) \<and>
          (r = None \<longrightarrow> length ms = length tcs)"
proof (induction tcs arbitrary: s)
  case Nil
  then show ?case by simp
next
  case (Cons tc rest)
  from Cons.prems show ?case
  proof (cases rule: tool_calls_loop_Cons_cases)
    case (no_name e)
    then show ?thesis by simp
  next
    case (no_id name e)
    then show ?thesis by simp
  next
    case (step_failed name tid e)
    then show ?thesis using step_do_frame(1) by fastforce
  next
    case (step_done name tid v s2)
    let ?tm = "\<lparr>role = tool, content = Some v, tool_calls = None, tool_call_id = tid\<rparr>"
    have s2: "messages s2 = messages s"
      using step_do_frame(1) [OF step_done(2)] by simp
    from Cons.IH [OF step_done(3)] obtain ms where
      ms: "messages s' = messages s @ ?tm # ms" "\<forall>m\<in>set ms. role m = tool"
        "map tool_call_id ms = map tool_call_id_of (take (length ms) rest)"
        "r = None \<longrightarrow> length ms = length rest"
      using s2 by auto
    have "tool_call_id_of tc = tid"
      using step_done(1) by (simp add: tool_call_id_of_def)
    with ms show ?thesis
      by (intro exI [of _ "?tm # ms"]) simp
  qed
qed

lemma tool_calls_loop_notified:
  "tool_calls_loop env turn tcs s = (r, s') \<Longrightarrow>
     \<exists>ns. notified s' = notified s @ ns \<and> agent s' = last (agent s # ns) \<and>
          (\<forall>a\<in>set ns. status a = ''fetching'' \<and> result a = result (agent s))"
proof (induction tcs arbitrary: s)
  case Nil
  then show ?case by simp
next
  case (Cons tc rest)
  have upd: "status (updateProgress a (toolUpdate env name)) = ''fetching''"
    "result (updateProgress a (toolUpdate env name)) = result a" for a name
    by (simp_all add: updateProgress_def toolUpdate_def)
  from Cons.prems show ?case
  proof (cases rule: tool_calls_loop_Cons_cases)
    case (no_name e)
    then show ?thesis by simp
  next
    case (no_id name e)
    then show ?thesis using upd by simp
  next
    case (step_failed name tid e)
    from step_do_frame(2,3) [OF step_failed(1)] show ?thesis
      using upd by simp
  next
    case (step_done name tid v s2)
    let ?a = "updateProgress (agent s) (toolUpdate env name)"
    from step_do_frame(2,3) [OF step_done(2)]
    have s2: "agent s2 = ?a" "notified s2 = notified s @ [?a]" by simp_all
    from Cons.IH [OF step_done(3)] obtain ns where
      ns: "notified s' = notified s @ ?a # ns" "agent s' = last (?a # ns)"
        "\<forall>a\<in>set ns. status a = ''fetching'' \<and> result a = result ?a"
      using s2 by auto
    then show ?thesis using upd
      by (intro exI [of _ "?a # ns"]) simp
  qed
qed

lemma handle_choice_messages:
  assumes "handle_choice env turn choice s = (fl, s')"
  shows "messages s' = messages s \<or>
     (\<exists>c tcs ms. messages s' =
         messages s @ \<lparr>role = assistant, content = c, tool_calls = tcs, tool_call_id = None\<rparr> # ms \<and>
        (\<forall>m\<in>set ms. role m = tool \<and> tool_call_id m \<in> requested_ids tcs))"
  using assms
proof (cases rule: handle_choice_cases)
  case (tools msg c tcs xs r)
  from tool_calls_loop_messages [OF tools(5)] obtain ms where
    ms: "messages s' =
       messages s @ \<lparr>role = assistant, content = c, tool_calls = tcs, tool_call_id = None\<rparr> # ms"
      "\<forall>m\<in>set ms. role m = tool"
      "map tool_call_id ms = map tool_call_id_of (take (length ms) xs)"
    by auto
  have "tool_call_id m \<in> requested_ids tcs" if "m \<in> set ms" for m
  proof -
    from that have "tool_call_id m \<in> set (map tool_call_id ms)" by simp
    also have "\<dots> = tool_call_id_of ` set (take (length ms) xs)"
      by (simp add: ms(3))
    also have "\<dots> \<subseteq> tool_call_id_of ` set xs"
      by (intro image_mono set_take_subset)
    finally show ?thesis by (simp add: requested_ids_def requested_def tools(4))
  qed
  with ms show ?thesis by blast
qed auto

lemma turn_body_messages:
  assumes "turn_body env turn s = (fl, s')"
  shows "messages s' = messages s \<or>
     (\<exists>c tcs ms. messages s' =
         messages s @ \<lparr>role = assistant, content = c, tool_calls = tcs, tool_call_id = None\<rparr> # ms \<and>
        (\<forall>m\<in>set ms. role m = tool \<and> tool_call_id m \<in> requested_ids tcs))"
  using assms
proof (cases rule: turn_body_cases)
  case (llm_failed e)
  then show ?thesis using step_do_frame(1) by fastforce
next
  case (skipped v)
  then show ?thesis using step_do_frame(1) by fastforce
next
  case (chosen v s2 choice)
  have "messages s2 = messages s"
    using step_do_frame(1) [OF chosen(1)] by simp
  with handle_choice_messages [OF chosen(3)] show ?thesis by simp
qed

lemma matched_extend:
  assumes "matched xs" and "role am = assistant"
    and "\<forall>m\<in>set ms. role m = tool \<and> tool_call_id m \<in> requested_ids (tool_calls am)"
  shows "matched (xs @ am # ms)"
  unfolding matched_def
proof (intro allI impI)
  fix i
  assume i: "i < length (xs @ am # ms)" and t: "role ((xs @ am # ms) ! i) = tool"
  consider "i < length xs" | "i = length xs" | "length xs < i" by linarith
  then show "\<exists>j<i. role ((xs @ am # ms) ! j) = assistant \<and>
      tool_call_id ((xs @ am # ms) ! i) \<in> requested_ids (tool_calls ((xs @ am # ms) ! j))"
  proof cases
    case 1
    with t have "role (xs ! i) = tool" by (simp add: nth_append)
    with assms(1) 1 obtain j where "j < i" "role (xs ! j) = assistant"
      "tool_call_id (xs ! i) \<in> requested_ids (tool_calls (xs ! j))"
      unfolding matched_def by blast
    with 1 show ?thesis by (intro exI [of _ j]) (simp add: nth_append)
  next
    case 2
    with t assms(2) show ?thesis by simp
  next
    case 3
    then have "(xs @ am # ms) ! i = ms ! (i - length xs - 1)"
      by (simp add: nth_append nth_Cons')
    moreover from 3 i have "ms ! (i - length xs - 1) \<in> set ms"
      by (intro nth_mem) simp
    ultimately have "tool_call_id ((xs @ am # ms) ! i) \<in> requested_ids (tool_calls am)"
      using assms(3) by simp
    with 3 assms(2) show ?thesis by (intro exI [of _ "length xs"]) simp
  qed
qed

lemma turn_body_matched:
  assumes "turn_body env turn s = (fl, s')" and "matched (messages s)"
  shows "matched (messages s')"
  using turn_body_messages [OF assms(1)] assms(2) 
  by (auto intro!: matched_extend)

lemma turn_body_prefix:
  assumes "turn_body env turn s = (fl, s')"
  shows "prefix (messages s) (messages s')"
  using turn_body_messages [OF assms(1)] by (auto simp: prefix_def)

lemma loop_messages:
  "loop env MAX_AGENT_TURNS turn s = (r, s') \<Longrightarrow>
     prefix (messages s) (messages s') \<and> (matched (messages s) \<longrightarrow> matched (messages s'))"
proof (induction env MAX_AGENT_TURNS turn s rule: loop.induct)
  case (1 env MAX_AGENT_TURNS turn s)
  show ?case
  proof (cases "turn < MAX_AGENT_TURNS")
    case False
    with "1.prems" show ?thesis by (simp add: loop.simps)
  next
    case True
    obtain fl s1 where tb: "turn_body env turn s = (fl, s1)" by force
    note p = turn_body_prefix [OF tb] and m = turn_body_matched [OF tb]
    show ?thesis
    proof (cases fl)
      case Continue
      with True tb "1.prems" have "loop env MAX_AGENT_TURNS (Suc turn) s1 = (r, s')"
        by (simp add: loop.simps [of env MAX_AGENT_TURNS turn])
      from "1.IH" [OF True tb [symmetric] Continue this] p m show ?thesis
        by (auto intro: prefix_order.trans)
    next
      case (Return res)
      with True tb "1.prems" have "s' = s1"
        by (simp add: loop.simps [of env MAX_AGENT_TURNS turn])
      with p m show ?thesis by simp
    next
      case (Throw e)
      with True tb "1.prems" have "s' = s1"
        by (simp add: loop.simps [of env MAX_AGENT_TURNS turn])
      with p m show ?thesis by simp
    qed
  qed
qed

subsection \<open>Induction along the loop\<close>

lemma loop_induct [consumes 1, case_names exit continue return throw]:
  assumes "loop env MAX_AGENT_TURNS turn s = (r, s')"
    and "\<And>turn. \<not> turn < MAX_AGENT_TURNS \<Longrightarrow>
           r = Inr \<lparr>wr_status = max_turns_reached, turns = MAX_AGENT_TURNS, wr_result = None\<rparr> \<Longrightarrow>
           P turn s'"
    and "\<And>turn s s1. turn < MAX_AGENT_TURNS \<Longrightarrow> turn_body env turn s = (Continue, s1) \<Longrightarrow>
           loop env MAX_AGENT_TURNS (Suc turn) s1 = (r, s') \<Longrightarrow> P (Suc turn) s1 \<Longrightarrow> P turn s"
    and "\<And>turn s res. turn < MAX_AGENT_TURNS \<Longrightarrow> turn_body env turn s = (Return res, s') \<Longrightarrow>
           r = Inr res \<Longrightarrow> P turn s"
    and "\<And>turn s e. turn < MAX_AGENT_TURNS \<Longrightarrow> turn_body env turn s = (Throw e, s') \<Longrightarrow>
           r = Inl e \<Longrightarrow> P turn s"
  shows "P turn s"
  using assms(1)
proof (induction "MAX_AGENT_TURNS - turn" arbitrary: turn s)
  case 0
  then have "\<not> turn < MAX_AGENT_TURNS" by simp
  with "0.prems" assms(2) [of turn] show ?case by (auto simp: loop.simps)
next
  case (Suc n)
  then have True: "turn < MAX_AGENT_TURNS" by simp
  obtain fl s1 where tb: "turn_body env turn s = (fl, s1)" by force
  show ?case
  proof (cases fl)
    case Continue
    with True tb Suc.prems have l: "loop env MAX_AGENT_TURNS (Suc turn) s1 = (r, s')"
      by (simp add: loop.simps [of env MAX_AGENT_TURNS turn])
    from Suc.hyps(2) have "n = MAX_AGENT_TURNS - Suc turn" by simp
    from Suc.hyps(1) [OF this l] assms(3) True tb Continue l
    show ?thesis by blast
  next
    case (Return res)
    with True tb Suc.prems have "s' = s1" "r = Inr res"
      by (simp_all add: loop.simps [of env MAX_AGENT_TURNS turn])
    with assms(4) True tb Return show ?thesis by blast
  next
    case (Throw e)
    with True tb Suc.prems have "s' = s1" "r = Inl e"
      by (simp_all add: loop.simps [of env MAX_AGENT_TURNS turn])
    with assms(5) True tb Throw show ?thesis by blast
  qed
qed

subsection \<open>What a turn publishes\<close>

lemma handle_choice_notified:
  assumes "handle_choice env turn choice s = (fl, s')"
  shows "\<exists>ns. notified s' = notified s @ ns \<and> agent s' = last (agent s # ns) \<and>
     (case fl of
        Return res \<Rightarrow> (\<exists>c. ns = [\<lparr>status = ''complete'', message = ''Analysis complete!'',
                                  result = or_undefined c\<rparr>])
      | _ \<Rightarrow> (\<forall>a\<in>set ns. status a = ''fetching'' \<and> result a = result (agent s)))"
  using assms
proof (cases rule: handle_choice_cases)
  case (stop msg c tcs fr)
  then show ?thesis by (auto simp: updateProgress_def completeUpdate_def)
next
  case (tools msg c tcs xs r)
  from tool_calls_loop_notified [OF tools(5)] tools(6) show ?thesis
    by (cases r) auto
qed auto

lemma handle_choice_Return:
  assumes "handle_choice env turn choice s = (Return res, s')"
  shows "\<exists>c. res = \<lparr>wr_status = complete, turns = turn + 1, wr_result = Some (or_null c)\<rparr>"
  using assms by (cases rule: handle_choice_cases) (auto split: option.splits)

lemma turn_body_Return:
  assumes "turn_body env turn s = (Return res, s')"
  shows "\<exists>c. res = \<lparr>wr_status = complete, turns = turn + 1, wr_result = Some (or_null c)\<rparr>"
  using assms by (cases rule: turn_body_cases) (auto dest!: handle_choice_Return)

lemma turnUpdate_state [simp]:
  "status (updateProgress a (turnUpdate turn)) = ''analyzing''"
  "result (updateProgress a (turnUpdate turn)) = result a"
  by (simp_all add: updateProgress_def turnUpdate_def)

lemma turn_body_notified:
  assumes "turn_body env turn s = (fl, s')"
  shows "\<exists>ns. notified s' = notified s @ updateProgress (agent s) (turnUpdate turn) # ns \<and>
     agent s' = last (updateProgress (agent s) (turnUpdate turn) # ns) \<and>
     (case fl of
        Return res \<Rightarrow> (\<exists>c. ns = [\<lparr>status = ''complete'', message = ''Analysis complete!'',
                                  result = or_undefined c\<rparr>])
      | _ \<Rightarrow> (\<forall>a\<in>set ns. status a = ''fetching'' \<and> result a = result (agent s)))"
    (is "\<exists>ns. ?N ns \<and> ?A ns \<and> ?P ns")
  using assms
proof (cases rule: turn_body_cases)
  case (llm_failed e)
  from step_do_frame(2,3) [OF llm_failed(1)]
  have "?N []" "?A []" by simp_all
  moreover have "?P []" using llm_failed(2) by simp
  ultimately show ?thesis by blast
next
  case (skipped v)
  from step_do_frame(2,3) [OF skipped(1)]
  have "?N []" "?A []" by simp_all
  moreover have "?P []" using skipped(2) by simp
  ultimately show ?thesis by blast
next
  case (chosen v s2 choice)
  let ?a = "updateProgress (agent s) (turnUpdate turn)"
  from step_do_frame(2,3) [OF chosen(1)]
  have s2: "agent s2 = ?a" "notified s2 = notified s @ [?a]" by simp_all
  from handle_choice_notified [OF chosen(3)] obtain ns where
    ns: "notified s' = notified s2 @ ns" "agent s' = last (agent s2 # ns)"
      "case fl of
         Return res \<Rightarrow> (\<exists>c. ns = [\<lparr>status = ''complete'', message = ''Analysis complete!'',
                                  result = or_undefined c\<rparr>])
       | _ \<Rightarrow> (\<forall>a\<in>set ns. status a = ''fetching'' \<and> result a = result (agent s2))"
    by blast
  have "?N ns" by (simp add: ns(1) s2(2))
  moreover have "?A ns" using ns(2) by (simp only: s2(1))
  moreover have "?P ns" using ns(3) by (simp add: s2(1) split: flow.splits)
  ultimately show ?thesis by blast
qed

lemma last_skip: "x = last (a # ns) \<Longrightarrow> x = last (b # a # ns)"
  by simp

lemma last_chain: "y = last (a # ns1) \<Longrightarrow> x = last (y # ns2) \<Longrightarrow> x = last (a # ns1 @ ns2)"
  by (cases ns2 rule: rev_cases) simp_all

lemma last_result:
  "x = last (a # ns) \<Longrightarrow> result a = v \<Longrightarrow> \<forall>b\<in>set ns. P b \<and> result b = v \<Longrightarrow> result x = v"
  by (cases ns rule: rev_cases) simp_all

lemma loop_running:
  assumes "loop env MAX_AGENT_TURNS turn s = (r, s')"
    and "\<forall>res. r = Inr res \<longrightarrow> wr_status res \<noteq> complete"
  shows "\<exists>ns. notified s' = notified s @ ns \<and> agent s' = last (agent s # ns) \<and>
     (\<forall>a\<in>set ns. (status a = ''analyzing'' \<or> status a = ''fetching'') \<and>
                 result a = result (agent s)) \<and>
     (turn < MAX_AGENT_TURNS \<longrightarrow> ns \<noteq> [])"
  using assms(1)
proof (induction rule: loop_induct)
  case (exit turn)
  then show ?case by simp
next
  case (continue turn s s1)
  let ?a = "updateProgress (agent s) (turnUpdate turn)"
  from turn_body_notified [OF continue(2)] obtain ns1 where
    ns1: "notified s1 = notified s @ ?a # ns1" "agent s1 = last (?a # ns1)"
      "\<forall>a\<in>set ns1. status a = ''fetching'' \<and> result a = result (agent s)"
    by auto
  have r1: "result (agent s1) = result (agent s)"
    by (rule last_result [OF ns1(2) _ ns1(3)]) simp
  from continue(4) obtain ns2 where
    ns2: "notified s' = notified s1 @ ns2" "agent s' = last (agent s1 # ns2)"
      "\<forall>a\<in>set ns2. (status a = ''analyzing'' \<or> status a = ''fetching'') \<and>
                    result a = result (agent s1)"
    by auto
  show ?case
  proof (intro exI [of _ "?a # ns1 @ ns2"] conjI)
    show "agent s' = last (agent s # ?a # ns1 @ ns2)"
      by (rule last_skip, rule last_chain [OF ns1(2) ns2(2)])
    show "notified s' = notified s @ ?a # ns1 @ ns2"
      by (simp add: ns1(1) ns2(1))
    show "\<forall>a\<in>set (?a # ns1 @ ns2). (status a = ''analyzing'' \<or> status a = ''fetching'') \<and>
        result a = result (agent s)"
      using ns1(3) ns2(3) r1 by auto
  qed simp
next
  case (return turn s res)
  with assms(2) turn_body_Return [OF return(2)] have False by auto
  then show ?case ..
next
  case (throw turn s e)
  let ?a = "updateProgress (agent s) (turnUpdate turn)"
  from turn_body_notified [OF throw(2)] obtain ns1 where
    ns1: "notified s' = notified s @ ?a # ns1" "agent s' = last (?a # ns1)"
      "\<forall>a\<in>set ns1. status a = ''fetching'' \<and> result a = result (agent s)"
    by auto
  show ?case
  proof (intro exI [of _ "?a # ns1"] conjI)
    show "agent s' = last (agent s # ?a # ns1)"
      by (rule last_skip [OF ns1(2)])
    show "notified s' = notified s @ ?a # ns1"
      by (rule ns1(1))
    show "\<forall>a\<in>set (?a # ns1). (status a = ''analyzing'' \<or> status a = ''fetching'') \<and>
        result a = result (agent s)"
      using ns1(3) by auto
  qed simp
qed

subsection \<open>Counting iterations\<close>

lemma iterations_simps [simp]:
  "iterations [] = 0"
  "iterations (a # ns) = (if status a = ''analyzing'' then Suc (iterations ns) else iterations ns)"
  "iterations (ns @ ns') = iterations ns + iterations ns'"
  by (simp_all add: iterations_def)

lemma iterations_fetching:
  "\<forall>a\<in>set ns. status a = ''fetching'' \<and> P a \<Longrightarrow> iterations ns = 0"
  by (induction ns) simp_all

lemma turn_body_iterations:
  assumes "turn_body env turn s = (fl, s')"
  shows "\<exists>ns. notified s' = notified s @ ns \<and> iterations ns = 1"
proof -
  let ?a = "updateProgress (agent s) (turnUpdate turn)"
  from turn_body_notified [OF assms] obtain ns where
    ns: "notified s' = notified s @ ?a # ns"
      "case fl of
         Return res \<Rightarrow> (\<exists>c. ns = [\<lparr>status = ''complete'', message = ''Analysis complete!'',
                                  result = or_undefined c\<rparr>])
       | _ \<Rightarrow> (\<forall>a\<in>set ns. status a = ''fetching'' \<and> result a = result (agent s))"
    by blast
  have "iterations ns = 0"
  proof (cases fl)
    case (Return res)
    with ns(2) show ?thesis by auto
  qed (use ns(2) in \<open>simp_all add: iterations_fetching\<close>)
  then have "iterations (?a # ns) = 1" by simp
  with ns(1) show ?thesis by blast
qed

lemma loop_iterations:
  assumes "loop env MAX_AGENT_TURNS turn s = (r, s')"
  shows "turn \<le> MAX_AGENT_TURNS \<longrightarrow>
     (\<exists>ns. notified s' = notified s @ ns \<and>
        (case r of
           Inr res \<Rightarrow> turns res = turn + iterations ns
         | Inl e \<Rightarrow> turn + iterations ns \<le> MAX_AGENT_TURNS \<and> 0 < iterations ns))"
  using assms
proof (induction rule: loop_induct)
  case (exit turn)
  then show ?case by (intro impI exI [of _ "[]"]) simp
next
  case (continue turn s s1)
  from turn_body_iterations [OF continue(2)] obtain ns1 where
    ns1: "notified s1 = notified s @ ns1" "iterations ns1 = 1" by blast
  from continue(1,4) obtain ns2 where
    ns2: "notified s' = notified s1 @ ns2"
      "case r of Inr res \<Rightarrow> turns res = Suc turn + iterations ns2
       | Inl e \<Rightarrow> Suc turn + iterations ns2 \<le> MAX_AGENT_TURNS \<and> 0 < iterations ns2"
    by auto
  show ?case
  proof (intro impI exI [of _ "ns1 @ ns2"] conjI)
    show "notified s' = notified s @ ns1 @ ns2" by (simp add: ns1(1) ns2(1))
    show "case r of Inr res \<Rightarrow> turns res = turn + iterations (ns1 @ ns2)
       | Inl e \<Rightarrow> turn + iterations (ns1 @ ns2) \<le> MAX_AGENT_TURNS \<and> 0 < iterations (ns1 @ ns2)"
      using ns2(2) ns1(2) by (simp split: sum.splits)
  qed
next
  case (return turn s res)
  from turn_body_iterations [OF return(2)] obtain ns1 where
    ns1: "notified s' = notified s @ ns1" "iterations ns1 = 1" by blast
  from turn_body_Return [OF return(2)] have "turns res = turn + 1" by auto
  with ns1 return(3) show ?case by (intro impI exI [of _ ns1]) simp
next
  case (throw turn s e)
  from turn_body_iterations [OF throw(2)] obtain ns1 where
    ns1: "notified s' = notified s @ ns1" "iterations ns1 = 1" by blast
  with throw(1,3) show ?case by (intro impI exI [of _ ns1]) simp
qed

lemma loop_result:
  assumes "loop env MAX_AGENT_TURNS turn s = (Inr res, s')"
  shows "(wr_status res = complete \<and> turn < turns res \<and> turns res \<le> MAX_AGENT_TURNS \<and>
          wr_result res \<noteq> None) \<or>
         (wr_status res = max_turns_reached \<and> turns res = MAX_AGENT_TURNS \<and> wr_result res = None)"
  using assms
proof (induction rule: loop_induct)
  case (continue turn s s1)
  then show ?case by auto
next
  case (return turn s res')
  from turn_body_Return [OF return(2)] return(1,3) show ?case by auto
qed simp_all

subsection \<open>Step records are kept\<close>

lemma handle_choice_keeps:
  assumes "handle_choice env turn choice s = (fl, s')" and "map_of (steps s) k = Some x"
  shows "map_of (steps s') k = Some x"
  using assms(1)
proof (cases rule: handle_choice_cases)
  case (tools msg c tcs xs r)
  from tool_calls_loop_keeps [OF tools(5)] assms(2) show ?thesis by simp
qed (use assms(2) in simp_all)

lemma turn_body_keeps:
  assumes "turn_body env turn s = (fl, s')" and "map_of (steps s) k = Some x"
  shows "map_of (steps s') k = Some x"
  using assms(1)
proof (cases rule: turn_body_cases)
  case (llm_failed e)
  from step_do_keeps [OF llm_failed(1)] assms(2) show ?thesis by simp
next
  case (skipped v)
  from step_do_keeps [OF skipped(1)] assms(2) show ?thesis by simp
next
  case (chosen v s2 choice)
  from step_do_keeps [OF chosen(1)] assms(2) have "map_of (steps s2) k = Some x" by simp
  with handle_choice_keeps [OF chosen(3)] show ?thesis .
qed

lemma loop_keeps:
  assumes "loop env MAX_AGENT_TURNS turn s = (r, s')"
  shows "map_of (steps s) k = Some x \<longrightarrow> map_of (steps s') k = Some x"
  using assms
proof (induction rule: loop_induct)
  case (continue turn s s1)
  with turn_body_keeps [OF continue(2)] show ?case by blast
next
  case (return turn s res)
  with turn_body_keeps [OF return(2)] show ?case by blast
next
  case (throw turn s e)
  with turn_body_keeps [OF throw(2)] show ?case by blast
qed simp

lemma run_keeps:
  assumes "run env MAX_AGENT_TURNS task s = (r, s')" and "map_of (steps s) k = Some x"
  shows "map_of (steps s') k = Some x"
  using loop_keeps [OF assms(1) [unfolded run_def]] assms(2) by simp

lemma later_keeps:
  assumes "later env s s'"
  shows "map_of (steps s) k = Some x \<longrightarrow> map_of (steps s') k = Some x"
  using assms
proof (induction rule: later.induct)
  case (step s1 key limit operation r s2)
  with step_do_keeps [OF step(2)] show ?case by blast
next
  case (turn s1 t fl s2)
  with turn_body_keeps [OF turn(2)] show ?case by blast
next
  case (rerun s1 MAX_AGENT_TURNS task res s2)
  with run_keeps [OF rerun(2)] show ?case by blast
qed simp

subsection \<open>Running a turn forwards\<close>

lemma loop_step:
  assumes "turn < MAX_AGENT_TURNS" and "turn_body env turn s = (fl, s1)"
  shows "loop env MAX_AGENT_TURNS turn s =
     (case fl of
        Continue \<Rightarrow> loop env MAX_AGENT_TURNS (Suc turn) s1
      | Return r \<Rightarrow> (Inr r, s1)
      | Throw e \<Rightarrow> (Inl e, s1))"
  using assms by (simp add: loop.simps [of env MAX_AGENT_TURNS turn])

lemma get_prop_Some_obj:
  assumes "get_prop (Some c) k = Inr (Some x)" and "k \<noteq> ''length''"
  shows "\<not> falsy (Some c)"
  using assms by (cases c) simp_all

lemma get_prop_not_nullish:
  assumes "get_prop x k = Inr y"
  shows "x \<noteq> None \<and> x \<noteq> Some JNull"
  using assms by (cases "(x, k)" rule: get_prop.cases) auto

lemma turn_body_chosen:
  assumes "step_do (llm_key turn) 3 (llm_callback env (messages s))
       (agent_updateProgress (turnUpdate turn) s) = (Inr v, s2)"
    and "isChatCompletionResponse v"
    and "get_prop (Some v) ''choices'' = Inr (Some (JArr (c # cs)))"
    and "\<not> falsy (Some c)"
  shows "turn_body env turn s = handle_choice env turn (Some c) s2"
  using assms by (simp add: turn_body_def)

lemma turn_body_skips:
  assumes "step_do (llm_key turn) 3 (llm_callback env (messages s))
       (agent_updateProgress (turnUpdate turn) s) = (Inr v, s2)"
    and "skips v"
  shows "turn_body env turn s = (Continue, s2)"
proof (cases "isChatCompletionResponse v")
  case False
  with assms(1) show ?thesis by (simp add: turn_body_def)
next
  case True
  then obtain cs where cs: "get_prop (Some v) ''choices'' = Inr (Some (JArr cs))"
    by (rule isChatCompletionResponse_choices)
  show ?thesis
  proof (cases cs)
    case Nil
    with assms(1) True cs show ?thesis by (simp add: turn_body_def)
  next
    case (Cons c rest)
    with assms(2) True cs have "falsy (Some c)" by (simp add: skips_def)
    with assms(1) True cs Cons show ?thesis by (simp add: turn_body_def)
  qed
qed

lemma handle_choice_stop:
  assumes "get_prop choice ''message'' = Inr msg"
    and "get_prop msg ''content'' = Inr cont"
    and "get_prop msg ''tool_calls'' = Inr tcs"
    and "get_prop choice ''finish_reason'' = Inr (Some (JStr ''stop'')) \<or> falsy tcs \<or>
         tcs = Some (JArr [])"
  shows "handle_choice env turn choice s =
     (Return \<lparr>wr_status = complete, turns = turn + 1, wr_result = Some (or_null cont)\<rparr>,
      agent_updateProgress (completeUpdate cont)
        (s\<lparr>messages := messages s @
           [\<lparr>role = assistant, content = cont, tool_calls = tcs, tool_call_id = None\<rparr>]\<rparr>))"
proof -
  from assms(1) obtain fr where fr: "get_prop choice ''finish_reason'' = Inr fr"
    by (cases "(choice, ''message'')" rule: get_prop.cases) auto
  with assms(4) have "fr = Some (JStr ''stop'') \<or> falsy tcs \<or>
      get_prop tcs ''length'' = Inr (Some (JNum 0))"
    by auto
  with assms(1-3) fr show ?thesis
    by (simp add: handle_choice_def)
qed


lemma choice_with_message_truthy:
  assumes "get_prop (Some c) ''message'' = Inr msg" and "get_prop msg k = Inr y"
  shows "\<not> falsy (Some c)"
proof -
  from get_prop_not_nullish [OF assms(2)] obtain x where "msg = Some x" by auto
  with assms(1) show ?thesis by (intro get_prop_Some_obj [of c "''message''" x]) simp_all
qed

subsection \<open>A gateway whose answers are all skipped\<close>

lemma attempts_first:
  assumes "operation w = (Inr v, w')"
  shows "attempts n operation w = (Inr v, w')"
  using assms by (simp add: attempts.simps [of n])

lemma step_do_skips:
  assumes gw: "\<forall>msgs w. \<exists>v w'. callAIGateway env msgs w = (Inr v, w') \<and> skips v"
    and inv: "\<forall>k x. map_of (steps s) k = Some x \<longrightarrow> skips x"
  shows "\<exists>v s2. step_do key limit (llm_callback env msgs) s = (Inr v, s2) \<and> skips v \<and>
           (\<forall>k x. map_of (steps s2) k = Some x \<longrightarrow> skips x)"
proof (cases "map_of (steps s) key")
  case (Some x)
  with inv show ?thesis by (simp add: step_do_def)
next
  case None
  from gw obtain v w' where v: "callAIGateway env msgs (world s) = (Inr v, w')" "skips v"
    by blast
  then have "attempts (limit - 1) (llm_callback env msgs) (world s) = (Inr v, w')"
    by (intro attempts_first) (simp add: llm_callback_def)
  with None have "step_do key limit (llm_callback env msgs) s =
      (Inr v, s\<lparr>steps := (key, v) # steps s, world := w'\<rparr>)"
    by (simp add: step_do_def)
  moreover have "\<forall>k x. map_of (steps (s\<lparr>steps := (key, v) # steps s, world := w'\<rparr>)) k = Some x
      \<longrightarrow> skips x"
    using inv v(2) by simp
  ultimately show ?thesis using v(2) by blast
qed

lemma loop_all_skipped:
  assumes gw: "\<forall>msgs w. \<exists>v w'. callAIGateway env msgs w = (Inr v, w') \<and> skips v"
  shows "\<forall>k x. map_of (steps s) k = Some x \<longrightarrow> skips x \<Longrightarrow>
     \<exists>s'. loop env MAX_AGENT_TURNS turn s =
       (Inr \<lparr>wr_status = max_turns_reached, turns = MAX_AGENT_TURNS, wr_result = None\<rparr>, s') \<and>
       messages s' = messages s"
proof (induction "MAX_AGENT_TURNS - turn" arbitrary: turn s)
  case 0
  then show ?case by (simp add: loop.simps)
next
  case (Suc n)
  from Suc.hyps(2) have lt: "turn < MAX_AGENT_TURNS" by simp
  let ?s1 = "agent_updateProgress (turnUpdate turn) s"
  have "\<forall>k x. map_of (steps ?s1) k = Some x \<longrightarrow> skips x"
    using Suc.prems by simp
  from step_do_skips [OF gw this] obtain v s2 where
    step: "step_do (llm_key turn) 3 (llm_callback env (messages s)) ?s1 = (Inr v, s2)"
    and v: "skips v" and inv2: "\<forall>k x. map_of (steps s2) k = Some x \<longrightarrow> skips x"
    by blast
  have tb: "turn_body env turn s = (Continue, s2)"
    using step v by (rule turn_body_skips)
  have m: "messages s2 = messages s"
    using step_do_frame(1) [OF step] by simp
  from Suc.hyps(2) have "n = MAX_AGENT_TURNS - Suc turn" by simp
  from Suc.hyps(1) [OF this inv2] obtain s' where
    "loop env MAX_AGENT_TURNS (Suc turn) s2 =
       (Inr \<lparr>wr_status = max_turns_reached, turns = MAX_AGENT_TURNS, wr_result = None\<rparr>, s')"
    "messages s' = messages s2"
    by blast
  with loop_step [OF lt tb] m show ?case by simp
qed

subsection \<open>Order of the tool messages\<close>

lemma last_in_set: "ns \<noteq> [] \<Longrightarrow> x = last (a # ns) \<Longrightarrow> x \<in> set ns"
  by simp

lemma handle_choice_order:
  assumes "handle_choice env turn choice s = (fl, s')"
  shows "messages s' = messages s \<or>
     (\<exists>cont tcs ms. messages s' =
         messages s @ \<lparr>role = assistant, content = cont, tool_calls = tcs, tool_call_id = None\<rparr> # ms \<and>
        (\<forall>m\<in>set ms. role m = tool) \<and>
        map tool_call_id ms = map tool_call_id_of (take (length ms) (requested tcs)) \<and>
        (fl = Continue \<longrightarrow> length ms = length (requested tcs)))"
  using assms
proof (cases rule: handle_choice_cases)
  case (no_message e)
  then show ?thesis by simp
next
  case (no_finish c tcs e)
  then show ?thesis by (intro disjI2 exI [of _ c] exI [of _ tcs] exI [of _ "[]"]) simp
next
  case (stop msg c tcs fr)
  then show ?thesis by (intro disjI2 exI [of _ c] exI [of _ tcs] exI [of _ "[]"]) simp
next
  case (not_iterable c tcs e)
  then show ?thesis by (intro disjI2 exI [of _ c] exI [of _ tcs] exI [of _ "[]"]) simp
next
  case (tools msg c tcs xs r)
  from tool_calls_loop_messages [OF tools(5)] obtain ms where
    ms: "messages s' =
       messages s @ \<lparr>role = assistant, content = c, tool_calls = tcs, tool_call_id = None\<rparr> # ms"
      "\<forall>m\<in>set ms. role m = tool"
      "map tool_call_id ms = map tool_call_id_of (take (length ms) xs)"
      "r = None \<longrightarrow> length ms = length xs"
    by auto
  have "requested tcs = xs" by (simp add: requested_def tools(4))
  moreover have "fl = Continue \<longrightarrow> r = None"
    using tools(6) by (cases r) simp_all
  ultimately show ?thesis using ms
    by (intro disjI2 exI [of _ c] exI [of _ tcs] exI [of _ ms]) simp
qed

lemma turn_body_order:
  assumes "turn_body env turn s = (fl, s')"
  shows "messages s' = messages s \<or>
     (\<exists>cont tcs ms. messages s' =
         messages s @ \<lparr>role = assistant, content = cont, tool_calls = tcs, tool_call_id = None\<rparr> # ms \<and>
        (\<forall>m\<in>set ms. role m = tool) \<and>
        map tool_call_id ms = map tool_call_id_of (take (length ms) (requested tcs)) \<and>
        (fl = Continue \<longrightarrow> length ms = length (requested tcs)))"
  using assms
proof (cases rule: turn_body_cases)
  case (llm_failed e)
  then show ?thesis using step_do_frame(1) by fastforce
next
  case (skipped v)
  then show ?thesis using step_do_frame(1) by fastforce
next
  case (chosen v s2 choice)
  have "messages s2 = messages s"
    using step_do_frame(1) [OF chosen(1)] by simp
  with handle_choice_order [OF chosen(3)] show ?thesis by simp
qed

lemma matched_user: "matched [\<lparr>role = user, content = c, tool_calls = t, tool_call_id = i\<rparr>]"
  by (simp add: matched_def)

subsection \<open>Failing steps and the tool callback\<close>

lemma step_do_Inl:
  assumes "step_do key limit operation s = (Inl e, s')"
  shows "\<exists>err. e = StepExhausted key err"
  using assms by (auto simp: step_do_def split: option.splits prod.splits sum.splits)

lemma tool_callback_unparseable:
  assumes "get_prop (Some tc) ''function'' = Inr f" and "get_prop f ''arguments'' = Inr a"
    and "JSON_parse env (to_string env a) = None"
  shows "tool_callback env tc w = (Inl SyntaxError, w)"
  using assms by (simp add: tool_callback_def)

lemma tool_callback_unknown:
  assumes "get_prop (Some tc) ''function'' = Inr f" and "get_prop f ''arguments'' = Inr a"
    and "JSON_parse env (to_string env a) = Some args" and "get_prop f ''name'' = Inr name"
    and "name \<noteq> Some (JStr ''search_repos'')" and "name \<noteq> Some (JStr ''get_repo'')"
  shows "tool_callback env tc w = (Inr (JStr (''Unknown tool: '' @ to_string env name)), w)"
  using assms by (simp add: tool_callback_def)

lemma tool_callback_invalid:
  assumes "get_prop (Some tc) ''function'' = Inr f" and "get_prop f ''arguments'' = Inr a"
    and "JSON_parse env (to_string env a) = Some args" and "get_prop f ''name'' = Inr name"
  shows "name = Some (JStr ''search_repos'') \<Longrightarrow> \<not> isSearchReposInput args \<Longrightarrow>
           tool_callback env tc w = (Inr (JStr ''Invalid arguments for search_repos''), w)"
    and "name = Some (JStr ''get_repo'') \<Longrightarrow> \<not> isGetRepoInput args \<Longrightarrow>
           tool_callback env tc w = (Inr (JStr ''Invalid arguments for get_repo''), w)"
  using assms by (simp_all add: tool_callback_def)

lemma handle_choice_tools:
  assumes "get_prop choice ''message'' = Inr msg"
    and "get_prop msg ''content'' = Inr cont"
    and "get_prop msg ''tool_calls'' = Inr (Some (JArr (tc # rest)))"
    and "get_prop choice ''finish_reason'' = Inr fr" and "fr \<noteq> Some (JStr ''stop'')"
  shows "handle_choice env turn choice s =
     (case tool_calls_loop env turn (tc # rest)
             (s\<lparr>messages := messages s @
                [\<lparr>role = assistant, content = cont, tool_calls = Some (JArr (tc # rest)),
                  tool_call_id = None\<rparr>]\<rparr>) of
        (Some e, s4) \<Rightarrow> (Throw e, s4)
      | (None, s4) \<Rightarrow> (Continue, s4))"
  using assms by (simp add: handle_choice_def del: tool_calls_loop.simps)

lemma tool_calls_loop_step_failed:
  assumes "get_prop (Some tc) ''function'' = Inr f" and "get_prop f ''name'' = Inr name"
    and "get_prop (Some tc) ''id'' = Inr tid"
    and "step_do (tool_key env turn tid) 2 (tool_callback env tc)
           (agent_updateProgress (toolUpdate env name) s) = (Inl e, s')"
  shows "tool_calls_loop env turn (tc # rest) s = (Some e, s')"
  using assms by simp

lemma tool_calls_loop_append:
  "tool_calls_loop env turn (xs @ ys) s =
     (case tool_calls_loop env turn xs s of
        (None, s1) \<Rightarrow> tool_calls_loop env turn ys s1
      | (Some e, s1) \<Rightarrow> (Some e, s1))"
proof (induction xs arbitrary: s)
  case Nil
  show ?case by simp
next
  case (Cons x xs)
  show ?case
    by (simp add: Cons.IH split: sum.splits prod.splits)
qed

lemma handle_choice_tool_calls:
  assumes "get_prop choice ''message'' = Inr msg"
    and "get_prop msg ''content'' = Inr cont"
    and "get_prop msg ''tool_calls'' = Inr (Some (JArr (tc # rest)))"
    and "get_prop choice ''finish_reason'' = Inr fr" and "fr \<noteq> Some (JStr ''stop'')"
    and "tool_calls_loop env turn (tc # rest)
             (s\<lparr>messages := messages s @
                [\<lparr>role = assistant, content = cont, tool_calls = Some (JArr (tc # rest)),
                  tool_call_id = None\<rparr>]\<rparr>) = (r, s4)"
  shows "handle_choice env turn choice s =
     (case r of Some e \<Rightarrow> Throw e | None \<Rightarrow> Continue, s4)"
  using handle_choice_tools [OF assms(1-5), of env turn s] assms(6)
  by (cases r) (simp_all del: tool_calls_loop.simps)

lemma attempts_unparseable:
  assumes "get_prop (Some tc) ''function'' = Inr f" and "get_prop f ''arguments'' = Inr a"
    and "JSON_parse env (to_string env a) = None"
  shows "attempts n (tool_callback env tc) w = (Inl SyntaxError, w)"
proof (induction n)
  case 0
  show ?case
    by (simp add: attempts.simps [of 0] tool_callback_unparseable [OF assms])
next
  case (Suc n)
  then show ?case
    by (simp add: attempts.simps [of "Suc n"] tool_callback_unparseable [OF assms])
qed

lemma step_do_unparseable:
  assumes "get_prop (Some tc) ''function'' = Inr f" and "get_prop f ''arguments'' = Inr a"
    and "JSON_parse env (to_string env a) = None"
    and "map_of (steps s) key = None"
  shows "step_do key limit (tool_callback env tc) s = (Inl (StepExhausted key SyntaxError), s)"
  using assms(4) by (simp add: step_do_def attempts_unparseable [OF assms(1-3)])

subsection \<open>The errors that leave the loop\<close>

lemma get_prop_Inl:
  assumes "get_prop x k = Inl e"
  shows "e = TypeError"
  using assms by (cases "(x, k)" rule: get_prop.cases) simp_all

lemma iterate_Inl:
  assumes "iterate x = Inl e"
  shows "e = TypeError"
  using assms by (cases x rule: iterate.cases) simp_all

lemma tool_calls_loop_error:
  "tool_calls_loop env turn tcs s = (Some e, s') \<Longrightarrow>
     e = TypeError \<or> (\<exists>k err. e = StepExhausted k err)"
proof (induction tcs arbitrary: s)
  case Nil
  then show ?case by simp
next
  case (Cons tc rest)
  show ?case
  proof (cases "get_prop (Some tc) ''function''")
    case (Inl x)
    with Cons.prems get_prop_Inl [OF Inl] show ?thesis by simp
  next
    case f: (Inr f)
    show ?thesis
    proof (cases "get_prop f ''name''")
      case (Inl x)
      with Cons.prems f get_prop_Inl [OF Inl] show ?thesis by simp
    next
      case name: (Inr name)
      show ?thesis
      proof (cases "get_prop (Some tc) ''id''")
        case (Inl x)
        with Cons.prems f name get_prop_Inl [OF Inl] show ?thesis by simp
      next
        case tid: (Inr tid)
        obtain r s2 where step: "step_do (tool_key env turn tid) 2 (tool_callback env tc)
            (agent_updateProgress (toolUpdate env name) s) = (r, s2)"
          by force
        show ?thesis
        proof (cases r)
          case (Inl x)
          with Cons.prems f name tid step have "e = x" by simp
          with step_do_Inl [OF step [unfolded Inl]] show ?thesis by blast
        next
          case (Inr v)
          with Cons.prems f name tid step
          have "tool_calls_loop env turn rest
            (s2\<lparr>messages := messages s2 @
                 [\<lparr>role = tool, content = Some v, tool_calls = None,
                   tool_call_id = tid\<rparr>]\<rparr>) = (Some e, s')"
            by simp
          then show ?thesis by (rule Cons.IH)
        qed
      qed
    qed
  qed
qed

lemma handle_choice_error:
  assumes "handle_choice env turn choice s = (Throw e, s')"
  shows "e = TypeError \<or> (\<exists>k err. e = StepExhausted k err)"
proof (cases "get_prop choice ''message''")
  case (Inl x)
  with assms get_prop_Inl [OF Inl] show ?thesis by (simp add: handle_choice_def)
next
  case msg: (Inr msg)
  show ?thesis
  proof (cases "get_prop msg ''content''")
    case (Inl x)
    with assms msg get_prop_Inl [OF Inl] show ?thesis by (simp add: handle_choice_def)
  next
    case cont: (Inr cont)
    show ?thesis
    proof (cases "get_prop msg ''tool_calls''")
      case (Inl x)
      with assms msg cont get_prop_Inl [OF Inl] show ?thesis by (simp add: handle_choice_def)
    next
      case tcs: (Inr tcs)
      show ?thesis
      proof (cases "get_prop choice ''finish_reason''")
        case (Inl x)
        with assms msg cont tcs get_prop_Inl [OF Inl] show ?thesis
          by (simp add: handle_choice_def Let_def)
      next
        case fr: (Inr fr)
        show ?thesis
        proof (cases "iterate tcs")
          case (Inl x)
          with assms msg cont tcs fr iterate_Inl [OF Inl] show ?thesis
            by (simp add: handle_choice_def Let_def split: if_splits)
        next
          case (Inr xs)
          let ?s3 = "s\<lparr>messages := messages s @
              [\<lparr>role = assistant, content = cont, tool_calls = tcs, tool_call_id = None\<rparr>]\<rparr>"
          obtain r s4 where l: "tool_calls_loop env turn xs ?s3 = (r, s4)" by force
          with assms msg cont tcs fr Inr have "r = Some e" "s4 = s'"
            by (simp_all add: handle_choice_def Let_def split: if_splits option.splits)
          with l tool_calls_loop_error show ?thesis by blast
        qed
      qed
    qed
  qed
qed

lemma turn_body_error:
  assumes "turn_body env turn s = (Throw e, s')"
  shows "e = TypeError \<or> (\<exists>k err. e = StepExhausted k err)"
  using assms
proof (cases rule: turn_body_cases)
  case (llm_failed e')
  then show ?thesis using step_do_Inl by blast
next
  case (skipped v)
  then show ?thesis by simp
next
  case (chosen v s2 choice)
  then show ?thesis using handle_choice_error by blast
qed

lemma loop_error:
  assumes "loop env MAX_AGENT_TURNS turn s = (Inl e, s')"
  shows "e = TypeError \<or> (\<exists>k err. e = StepExhausted k err)"
  using assms
proof (induction rule: loop_induct)
  case (throw turn s e')
  then show ?case using turn_body_error by blast
qed simp_all

lemma tool_calls_loop_step_done:
  assumes "get_prop (Some tc) ''function'' = Inr f" and "get_prop f ''name'' = Inr name"
    and "get_prop (Some tc) ''id'' = Inr tid"
    and "step_do (tool_key env turn tid) 2 (tool_callback env tc)
           (agent_updateProgress (toolUpdate env name) s) = (Inr v, s2)"
  shows "tool_calls_loop env turn (tc # rest) s =
     tool_calls_loop env turn rest
       (s2\<lparr>messages := messages s2 @
          [\<lparr>role = tool, content = Some v, tool_calls = None, tool_call_id = tid\<rparr>]\<rparr>)"
  using assms by simp

section \<open>The claims\<close>

text \<open>
  C1. For every checkpoint key \<open>K\<close> (in the workflow: \<open>llm_key t\<close>, that is
  \<^verbatim>\<open>llm-turn-t\<close>, and \<open>tool_key env t id\<close>, that is \<^verbatim>\<open>tool-t-id\<close>): once a first
  execution of a step under \<open>K\<close> has succeeded with result \<open>v\<close>, every later
  \<open>step_do\<close> with the same key, in any state reached by further steps, turns or
  replays of the run, with any retry limit and any operation, returns \<open>v\<close> and leaves
  the state, the outside world included, as it is: the operation is not invoked.
\<close>

theorem step_do_at_most_once:
  assumes "step_do K limit operation s0 = (Inr v, s1)" and "later env s1 s"
  shows "step_do K limit' operation' s = (Inr v, s)"
proof -
  have "map_of (steps s1) K = Some v"
    using assms(1) by (rule step_do_recorded)
  with later_keeps [OF assms(2)] have "map_of (steps s) K = Some v" by blast
  then show ?thesis by (rule step_do_hit)
qed

theorem step_do_at_most_once_witness:
  "fst (step_do (llm_key 0) 3
          (llm_callback (scripted_env [Inr (response [stop_choice ''pong''])]) []) fresh) =
     Inr (response [stop_choice ''pong'']) \<and>
   step_do (llm_key 0) 3 (\<lambda>w. (Inl (Failure ''not to be called''), Suc w))
     (snd (run (scripted_env [Inr (response [stop_choice ''pong''])]) 10 ''ping''
        (snd (step_do (llm_key 0) 3
          (llm_callback (scripted_env [Inr (response [stop_choice ''pong''])]) []) fresh)))) =
   (Inr (response [stop_choice ''pong'']),
    snd (run (scripted_env [Inr (response [stop_choice ''pong''])]) 10 ''ping''
        (snd (step_do (llm_key 0) 3
          (llm_callback (scripted_env [Inr (response [stop_choice ''pong''])]) []) fresh))))"
proof -
  let ?E = "scripted_env [Inr (response [stop_choice ''pong''])]"
  let ?first = "step_do (llm_key 0) 3 (llm_callback ?E []) fresh"
  have a: "fst ?first = Inr (response [stop_choice ''pong''])"
    by code_simp
  then have b: "?first = (Inr (response [stop_choice ''pong'']), snd ?first)"
    by (metis prod.collapse)
  have c: "later ?E (snd ?first) (snd (run ?E 10 ''ping'' (snd ?first)))"
    by (rule later.rerun [OF later.now]) (rule prod.collapse [symmetric])
  from a step_do_at_most_once [OF b c] show ?thesis by blast
qed


text \<open>
  The stop condition for a first choice that carries a message. Let the gateway step of
  turn \<open>turn\<close> return a value \<open>v\<close> that passes \<open>isChatCompletionResponse\<close> and whose
  first choice \<open>c\<close> carries a message with content \<open>cont\<close> and tool calls \<open>tcs\<close>. If
  the choice's \<^verbatim>\<open>finish_reason\<close> is \<^verbatim>\<open>stop\<close>, or \<open>tcs\<close> is absent or the empty
  array, the run ends there with status \<open>complete\<close>, \<open>turns = turn + 1\<close> and the content
  as result (\<^verbatim>\<open>null\<close> when the content is \<^verbatim>\<open>null\<close> or absent); the assistant message
  is the last one appended and the agent's state is \<^verbatim>\<open>complete\<close> with that content.
\<close>

theorem stop_condition_completes:
  assumes "turn < MAX_AGENT_TURNS"
    and "step_do (llm_key turn) 3 (llm_callback env (messages s))
           (agent_updateProgress (turnUpdate turn) s) = (Inr v, s2)"
    and "isChatCompletionResponse v"
    and "get_prop (Some v) ''choices'' = Inr (Some (JArr (c # cs)))"
    and "get_prop (Some c) ''message'' = Inr msg"
    and "get_prop msg ''content'' = Inr cont"
    and "get_prop msg ''tool_calls'' = Inr tcs"
    and "get_prop (Some c) ''finish_reason'' = Inr (Some (JStr ''stop'')) \<or>
         tcs = None \<or> tcs = Some (JArr [])"
  shows "\<exists>s'. loop env MAX_AGENT_TURNS turn s =
           (Inr \<lparr>wr_status = complete, turns = turn + 1, wr_result = Some (or_null cont)\<rparr>, s') \<and>
         messages s' = messages s @
           [\<lparr>role = assistant, content = cont, tool_calls = tcs, tool_call_id = None\<rparr>] \<and>
         status (agent s') = ''complete'' \<and> result (agent s') = or_undefined cont"
proof -
  let ?s3 = "s2\<lparr>messages := messages s2 @
           [\<lparr>role = assistant, content = cont, tool_calls = tcs, tool_call_id = None\<rparr>]\<rparr>"
  let ?s' = "agent_updateProgress (completeUpdate cont) ?s3"
  let ?res = "\<lparr>wr_status = complete, turns = turn + 1, wr_result = Some (or_null cont)\<rparr>"
  have truthy: "\<not> falsy (Some c)"
    using assms(5,6) by (rule choice_with_message_truthy)
  have stop: "get_prop (Some c) ''finish_reason'' = Inr (Some (JStr ''stop'')) \<or> falsy tcs \<or>
      tcs = Some (JArr [])"
    using assms(8) by auto
  have "turn_body env turn s = handle_choice env turn (Some c) s2"
    using assms(2,3,4) truthy by (rule turn_body_chosen)
  also have "\<dots> = (Return ?res, ?s')"
    using assms(5,6,7) stop by (rule handle_choice_stop)
  finally have tb: "turn_body env turn s = (Return ?res, ?s')" .
  have "loop env MAX_AGENT_TURNS turn s = (Inr ?res, ?s')"
    using loop_step [OF assms(1) tb] by simp
  moreover have "messages s2 = messages s"
    using step_do_frame(1) [OF assms(2)] by simp
  then have "messages ?s' = messages s @
      [\<lparr>role = assistant, content = cont, tool_calls = tcs, tool_call_id = None\<rparr>]"
    by simp
  moreover have "status (agent ?s') = ''complete''" "result (agent ?s') = or_undefined cont"
    by (simp_all add: updateProgress_def completeUpdate_def)
  ultimately show ?thesis by blast
qed

theorem stop_condition_completes_witness:
  "fst (run (scripted_env [Inr (response [stop_choice ''pong''])]) 10 ''ping'' fresh) =
     Inr \<lparr>wr_status = complete, turns = 1, wr_result = Some (JStr ''pong'')\<rparr>"
proof -
  let ?E = "scripted_env [Inr (response [stop_choice ''pong''])]"
  let ?s = "agent_updateProgress initialUpdate
      (fresh\<lparr>messages := [\<lparr>role = user, content = Some (JStr ''ping''), tool_calls = None,
                             tool_call_id = None\<rparr>]\<rparr>)"
  let ?step = "step_do (llm_key 0) 3 (llm_callback ?E (messages ?s))
      (agent_updateProgress (turnUpdate 0) ?s)"
  let ?msg = "JObj [(''role'', JStr ''assistant''), (''content'', JStr ''pong'')]"
  have "fst ?step = Inr (response [stop_choice ''pong''])" by code_simp
  then have step: "?step = (Inr (response [stop_choice ''pong'']), snd ?step)"
    by (metis prod.collapse)
  have valid: "isChatCompletionResponse (response [stop_choice ''pong''])"
    by (simp add: isChatCompletionResponse_iff response_def)
  have ch: "get_prop (Some (response [stop_choice ''pong''])) ''choices'' =
      Inr (Some (JArr (stop_choice ''pong'' # [])))"
    by (simp add: response_def)
  have msg: "get_prop (Some (stop_choice ''pong'')) ''message'' = Inr (Some ?msg)"
    by (simp add: stop_choice_def)
  have cont: "get_prop (Some ?msg) ''content'' = Inr (Some (JStr ''pong''))" by simp
  have tcs: "get_prop (Some ?msg) ''tool_calls'' = Inr None" by simp
  have fin: "get_prop (Some (stop_choice ''pong'')) ''finish_reason'' = Inr (Some (JStr ''stop'')) \<or>
      (None :: json option) = None \<or> None = Some (JArr [])"
    by simp
  have "(0::nat) < 10" by simp
  from stop_condition_completes [OF this step valid ch msg cont tcs fin]
  show ?thesis by (auto simp: run_def)
qed

text \<open>
  C3. \<open>run\<close> is a total function: every run ends, with an error (\<open>Inl\<close>), with
  \<open>complete\<close> or with \<open>max_turns_reached\<close>. The loop starts at most \<open>MAX_AGENT_TURNS\<close>
  iterations (counted by the \<^verbatim>\<open>analyzing\<close> states it publishes, one at the head of each
  iteration). The \<open>turns\<close> reported are the number of iterations started and so at most
  \<open>MAX_AGENT_TURNS\<close>. A run that does not complete and does not fail has run all
  \<open>MAX_AGENT_TURNS\<close> iterations and ends with \<open>max_turns_reached\<close> and no result.
\<close>

theorem run_bounded:
  "\<exists>r s' ns. run env MAX_AGENT_TURNS task s = (r, s') \<and>
     notified s' = notified s @ updateProgress (agent s) initialUpdate # ns \<and>
     iterations ns \<le> MAX_AGENT_TURNS \<and>
     (case r of
        Inl e \<Rightarrow> 0 < iterations ns
      | Inr res \<Rightarrow> turns res = iterations ns \<and>
          (wr_status res = complete \<and> 0 < turns res \<and> wr_result res \<noteq> None \<or>
           wr_status res = max_turns_reached \<and> turns res = MAX_AGENT_TURNS \<and> wr_result res = None))"
proof -
  let ?s = "agent_updateProgress initialUpdate
        (s\<lparr>messages := [\<lparr>role = user, content = Some (JStr task), tool_calls = None,
                          tool_call_id = None\<rparr>]\<rparr>)"
  obtain r s' where l: "loop env MAX_AGENT_TURNS 0 ?s = (r, s')" by force
  from loop_iterations [OF l] obtain ns where
    ns: "notified s' = notified ?s @ ns"
      "case r of Inr res \<Rightarrow> turns res = 0 + iterations ns
       | Inl e \<Rightarrow> 0 + iterations ns \<le> MAX_AGENT_TURNS \<and> 0 < iterations ns"
    by blast
  have n: "notified s' = notified s @ updateProgress (agent s) initialUpdate # ns"
    using ns(1) by simp
  have "iterations ns \<le> MAX_AGENT_TURNS \<and>
     (case r of
        Inl e \<Rightarrow> 0 < iterations ns
      | Inr res \<Rightarrow> turns res = iterations ns \<and>
          (wr_status res = complete \<and> 0 < turns res \<and> wr_result res \<noteq> None \<or>
           wr_status res = max_turns_reached \<and> turns res = MAX_AGENT_TURNS \<and> wr_result res = None))"
  proof (cases r)
    case (Inl e)
    with ns(2) show ?thesis by simp
  next
    case (Inr res)
    with loop_result [of env MAX_AGENT_TURNS 0 ?s res s'] l ns(2) show ?thesis by auto
  qed
  with l n show ?thesis unfolding run_def by blast
qed

theorem run_bounded_witness:
  "\<exists>ns. fst (run (constant_env (response [tool_choice ''tool_calls''
              [tool_call ''c1'' ''frobnicate'' ''{}'']])) 3 ''ping'' fresh) =
          Inr \<lparr>wr_status = max_turns_reached, turns = 3, wr_result = None\<rparr> \<and>
        notified (snd (run (constant_env (response [tool_choice ''tool_calls''
              [tool_call ''c1'' ''frobnicate'' ''{}'']])) 3 ''ping'' fresh)) =
          updateProgress initialState initialUpdate # ns \<and>
        iterations ns = 3"
proof -
  let ?E = "constant_env (response [tool_choice ''tool_calls''
              [tool_call ''c1'' ''frobnicate'' ''{}'']])"
  have r: "fst (run ?E 3 ''ping'' fresh) =
      Inr \<lparr>wr_status = max_turns_reached, turns = 3, wr_result = None\<rparr>"
    by code_simp
  from run_bounded [of ?E 3 "''ping''" fresh] obtain r' s' ns where
    *: "run ?E 3 ''ping'' fresh = (r', s')"
      "notified s' = notified fresh @ updateProgress (agent fresh) initialUpdate # ns"
      "case r' of Inl e \<Rightarrow> 0 < iterations ns
       | Inr res \<Rightarrow> turns res = iterations ns \<and>
          (wr_status res = complete \<and> 0 < turns res \<and> wr_result res \<noteq> None \<or>
           wr_status res = max_turns_reached \<and> turns res = 3 \<and> wr_result res = None)"
    by blast
  from r *(1,3) have "iterations ns = 3" by auto
  moreover from *(1,2) have "notified (snd (run ?E 3 ''ping'' fresh)) =
      updateProgress initialState initialUpdate # ns"
    by (simp add: fresh_def)
  ultimately show ?thesis using r by blast
qed

text \<open>
  C4. A gateway answer \<open>v\<close> that fails \<open>isChatCompletionResponse\<close> (no string
  \<^verbatim>\<open>id\<close>, no string \<^verbatim>\<open>model\<close> or no array \<^verbatim>\<open>choices\<close>, see
  \<open>isChatCompletionResponse_iff\<close>), or has no choices or a falsy first choice, makes
  the loop body continue with the messages unchanged, and the loop goes on with turn
  \<open>turn + 1\<close>: the skipped turn has used one of the \<open>MAX_AGENT_TURNS\<close> iterations. When the
  gateway answers every call with such a value, a new run ends with
  \<open>max_turns_reached\<close>, not with an error, and its transcript is the user message alone.
\<close>

theorem shape_failure_skips_turn:
  "(turn < MAX_AGENT_TURNS \<and>
    step_do (llm_key turn) 3 (llm_callback env (messages s))
      (agent_updateProgress (turnUpdate turn) s) = (Inr v, s2) \<and> skips v \<longrightarrow>
      turn_body env turn s = (Continue, s2) \<and> messages s2 = messages s \<and>
      loop env MAX_AGENT_TURNS turn s = loop env MAX_AGENT_TURNS (Suc turn) s2) \<and>
   ((\<forall>msgs w. \<exists>v w'. callAIGateway env msgs w = (Inr v, w') \<and> skips v) \<and> steps s0 = [] \<longrightarrow>
      (\<exists>s'. run env MAX_AGENT_TURNS task s0 =
         (Inr \<lparr>wr_status = max_turns_reached, turns = MAX_AGENT_TURNS, wr_result = None\<rparr>, s') \<and>
         messages s' =
           [\<lparr>role = user, content = Some (JStr task), tool_calls = None, tool_call_id = None\<rparr>]))"
proof (intro conjI impI)
  assume a: "turn < MAX_AGENT_TURNS \<and>
    step_do (llm_key turn) 3 (llm_callback env (messages s))
      (agent_updateProgress (turnUpdate turn) s) = (Inr v, s2) \<and> skips v"
  then have tb: "turn_body env turn s = (Continue, s2)"
    by (intro turn_body_skips [of turn env s v s2]) simp_all
  then show "turn_body env turn s = (Continue, s2)" .
  from a show "messages s2 = messages s"
    using step_do_frame(1) [of "llm_key turn" 3 "llm_callback env (messages s)"
        "agent_updateProgress (turnUpdate turn) s" "Inr v" s2]
    by simp
  from a loop_step [OF _ tb, of MAX_AGENT_TURNS]
  show "loop env MAX_AGENT_TURNS turn s = loop env MAX_AGENT_TURNS (Suc turn) s2" by simp
next
  assume a: "(\<forall>msgs w. \<exists>v w'. callAIGateway env msgs w = (Inr v, w') \<and> skips v) \<and> steps s0 = []"
  let ?s = "agent_updateProgress initialUpdate
        (s0\<lparr>messages := [\<lparr>role = user, content = Some (JStr task), tool_calls = None,
                           tool_call_id = None\<rparr>]\<rparr>)"
  from a have gw: "\<forall>msgs w. \<exists>v w'. callAIGateway env msgs w = (Inr v, w') \<and> skips v"
    and "\<forall>k x. map_of (steps ?s) k = Some x \<longrightarrow> skips x"
    by simp_all
  from loop_all_skipped [OF this, of MAX_AGENT_TURNS 0]
  show "\<exists>s'. run env MAX_AGENT_TURNS task s0 =
         (Inr \<lparr>wr_status = max_turns_reached, turns = MAX_AGENT_TURNS, wr_result = None\<rparr>, s') \<and>
         messages s' =
           [\<lparr>role = user, content = Some (JStr task), tool_calls = None, tool_call_id = None\<rparr>]"
    by (simp add: run_def)
qed

theorem shape_failure_skips_turn_witness:
  "fst (turn_body (constant_env (response [])) 0 fresh) = Continue \<and>
   messages (snd (turn_body (constant_env (response [])) 0 fresh)) = messages fresh \<and>
   (\<exists>s'. run (constant_env (response [])) 3 ''ping'' fresh =
      (Inr \<lparr>wr_status = max_turns_reached, turns = 3, wr_result = None\<rparr>, s') \<and>
      messages s' =
        [\<lparr>role = user, content = Some (JStr ''ping''), tool_calls = None, tool_call_id = None\<rparr>])"
proof -
  let ?E = "constant_env (response [])"
  let ?step = "step_do (llm_key 0) 3 (llm_callback ?E (messages fresh))
      (agent_updateProgress (turnUpdate 0) fresh)"
  have "fst ?step = Inr (response [])" by code_simp
  then have step: "?step = (Inr (response []), snd ?step)"
    by (metis prod.collapse)
  have sk: "skips (response [])"
    by (simp add: skips_def response_def)
  have gw: "\<forall>msgs w. \<exists>v w'. callAIGateway ?E msgs w = (Inr v, w') \<and> skips v"
    using sk by (simp add: constant_env_def)
  have fr: "steps fresh = []" by (simp add: fresh_def)
  from shape_failure_skips_turn [where env = ?E and turn = 0 and MAX_AGENT_TURNS = 3 and s = fresh
      and v = "response []" and ?s2.0 = "snd ?step" and ?s0.0 = fresh and task = "''ping''"]
    step sk gw fr
  show ?thesis by simp
qed

text \<open>
  C5. A tool call whose \<^verbatim>\<open>arguments\<close> are not JSON: \<^verbatim>\<open>JSON.parse\<close> throws inside the
  callback of the tool step, on each of its two attempts; the step is exhausted and the
  error leaves \<^verbatim>\<open>run\<close>. No tool message is appended and the run does not go on to the
  next turn. This is the run on an example; in any environment the tool step fails in
  this way by \<open>step_do_unparseable\<close>. (For arguments that parse,
  \<open>tool_callback_invalid\<close> and \<open>tool_callback_unknown\<close> give the strings the callback
  returns.)
\<close>

theorem unparseable_arguments_abort_run:
  "fst (run (scripted_env [Inr (response [tool_choice ''tool_calls''
          [tool_call ''c1'' ''search_repos'' ''{not json'']])]) 10 ''ping'' fresh) =
     Inl (StepExhausted ''tool-0-c1'' SyntaxError) \<and>
   map role (messages (snd (run (scripted_env [Inr (response [tool_choice ''tool_calls''
          [tool_call ''c1'' ''search_repos'' ''{not json'']])]) 10 ''ping'' fresh))) =
     [user, assistant] \<and>
   tool_callback (scripted_env []) (tool_call ''c1'' ''search_repos'' ''{not json'') 0 =
     (Inl SyntaxError, 0)"
  by code_simp

text \<open>
  C6. An error that leaves \<^verbatim>\<open>run\<close> is the exhaustion of a checkpointed step, or a
  TypeError (raised when a value is read that is not there; what brings one about is not
  the subject here). When a step uses up its attempts, the error leaves \<^verbatim>\<open>run\<close>: for
  the LLM step of a turn, and for the step of any tool call of a turn (the tool calls
  \<open>pre\<close> before it having run), the rest of the run from that turn is \<open>Inl\<close> of a
  \<open>StepExhausted\<close> error carrying the step's key, and the state is the one the failed
  step left. A run that ends with an error is reported with status \<^verbatim>\<open>error\<close> by the
  route \<^verbatim>\<open>GET /api\<close>. The workflow publishes nothing on the way out: every state
  published after the initial one is \<^verbatim>\<open>analyzing\<close> or \<^verbatim>\<open>fetching\<close>, and the agent is
  left in the last of them, not in \<^verbatim>\<open>error\<close>. The other failures are absorbed: a
  gateway answer that fails the shape test, or has no first choice, makes the turn
  continue; arguments that parse but fail the tool's type guard, and a tool name that is
  not known, make the callback return a string, and the string a tool step returns is
  appended to the transcript as a tool message before the loop goes on.
\<close>

theorem step_exhausted_aborts_run:
  "(turn < MAX_AGENT_TURNS \<and>
    step_do (llm_key turn) 3 (llm_callback env (messages s))
      (agent_updateProgress (turnUpdate turn) s) = (Inl e, s2) \<longrightarrow>
      loop env MAX_AGENT_TURNS turn s = (Inl e, s2) \<and> (\<exists>err. e = StepExhausted (llm_key turn) err) \<and>
      messages s2 = messages s \<and> status (agent s2) = ''analyzing'') \<and>
   (turn < MAX_AGENT_TURNS \<and>
    step_do (llm_key turn) 3 (llm_callback env (messages s))
      (agent_updateProgress (turnUpdate turn) s) = (Inr v, s2) \<and>
    isChatCompletionResponse v \<and>
    get_prop (Some v) ''choices'' = Inr (Some (JArr (c # cs))) \<and>
    get_prop (Some c) ''message'' = Inr msg \<and>
    get_prop msg ''content'' = Inr cont \<and>
    get_prop msg ''tool_calls'' = Inr (Some (JArr (pre @ tc # rest))) \<and>
    get_prop (Some c) ''finish_reason'' = Inr fr \<and> fr \<noteq> Some (JStr ''stop'') \<and>
    tool_calls_loop env turn pre
      (s2\<lparr>messages := messages s2 @
         [\<lparr>role = assistant, content = cont, tool_calls = Some (JArr (pre @ tc # rest)),
           tool_call_id = None\<rparr>]\<rparr>) = (None, s3) \<and>
    get_prop (Some tc) ''function'' = Inr f \<and> get_prop f ''name'' = Inr name \<and>
    get_prop (Some tc) ''id'' = Inr tid \<and>
    step_do (tool_key env turn tid) 2 (tool_callback env tc)
      (agent_updateProgress (toolUpdate env name) s3) = (Inl e', s4) \<longrightarrow>
      loop env MAX_AGENT_TURNS turn s = (Inl e', s4) \<and>
      (\<exists>err. e' = StepExhausted (tool_key env turn tid) err) \<and>
      status (agent s4) = ''fetching'') \<and>
   (run env MAX_AGENT_TURNS task s0 = (Inl e0, s0') \<longrightarrow>
      (e0 = TypeError \<or> (\<exists>k err. e0 = StepExhausted k err)) \<and>
      wsr_status (api_status (instance_status (Inl e0))) = ''error'' \<and>
      (\<exists>ns. notified s0' = notified s0 @ updateProgress (agent s0) initialUpdate # ns \<and>
         (\<forall>a\<in>set ns. status a = ''analyzing'' \<or> status a = ''fetching'') \<and>
         agent s0' = last ns \<and> ns \<noteq> [])) \<and>
   (step_do (llm_key turn) 3 (llm_callback env (messages s))
      (agent_updateProgress (turnUpdate turn) s) = (Inr v, s2) \<and> skips v \<longrightarrow>
      turn_body env turn s = (Continue, s2)) \<and>
   (get_prop (Some tc) ''function'' = Inr f \<and> get_prop f ''arguments'' = Inr a \<and>
    JSON_parse env (to_string env a) = Some args \<and> get_prop f ''name'' = Inr name \<longrightarrow>
      (name = Some (JStr ''search_repos'') \<and> \<not> isSearchReposInput args \<longrightarrow>
         tool_callback env tc w = (Inr (JStr ''Invalid arguments for search_repos''), w)) \<and>
      (name = Some (JStr ''get_repo'') \<and> \<not> isGetRepoInput args \<longrightarrow>
         tool_callback env tc w = (Inr (JStr ''Invalid arguments for get_repo''), w)) \<and>
      (name \<noteq> Some (JStr ''search_repos'') \<and> name \<noteq> Some (JStr ''get_repo'') \<longrightarrow>
         tool_callback env tc w = (Inr (JStr (''Unknown tool: '' @ to_string env name)), w))) \<and>
   (get_prop (Some tc) ''function'' = Inr f \<and> get_prop f ''name'' = Inr name \<and>
    get_prop (Some tc) ''id'' = Inr tid \<and>
    step_do (tool_key env turn tid) 2 (tool_callback env tc)
      (agent_updateProgress (toolUpdate env name) s) = (Inr x, s5) \<longrightarrow>
      tool_calls_loop env turn (tc # rest) s =
        tool_calls_loop env turn rest
          (s5\<lparr>messages := messages s5 @
             [\<lparr>role = tool, content = Some x, tool_calls = None, tool_call_id = tid\<rparr>]\<rparr>))"
proof (intro conjI impI)
  assume a: "turn < MAX_AGENT_TURNS \<and>
    step_do (llm_key turn) 3 (llm_callback env (messages s))
      (agent_updateProgress (turnUpdate turn) s) = (Inl e, s2)"
  then have step: "step_do (llm_key turn) 3 (llm_callback env (messages s))
      (agent_updateProgress (turnUpdate turn) s) = (Inl e, s2)" and lt: "turn < MAX_AGENT_TURNS"
    by simp_all
  then have "turn_body env turn s = (Throw e, s2)"
    by (simp add: turn_body_def)
  from loop_step [OF lt this] show "loop env MAX_AGENT_TURNS turn s = (Inl e, s2)" by simp
  from step show "\<exists>err. e = StepExhausted (llm_key turn) err" by (rule step_do_Inl)
  from step_do_frame(1,2) [OF step]
  show "messages s2 = messages s" "status (agent s2) = ''analyzing''" by simp_all
next
  let ?tcs = "pre @ tc # rest"
  let ?s3 = "s2\<lparr>messages := messages s2 @
           [\<lparr>role = assistant, content = cont, tool_calls = Some (JArr ?tcs),
             tool_call_id = None\<rparr>]\<rparr>"
  assume a: "turn < MAX_AGENT_TURNS \<and>
    step_do (llm_key turn) 3 (llm_callback env (messages s))
      (agent_updateProgress (turnUpdate turn) s) = (Inr v, s2) \<and>
    isChatCompletionResponse v \<and>
    get_prop (Some v) ''choices'' = Inr (Some (JArr (c # cs))) \<and>
    get_prop (Some c) ''message'' = Inr msg \<and>
    get_prop msg ''content'' = Inr cont \<and>
    get_prop msg ''tool_calls'' = Inr (Some (JArr ?tcs)) \<and>
    get_prop (Some c) ''finish_reason'' = Inr fr \<and> fr \<noteq> Some (JStr ''stop'') \<and>
    tool_calls_loop env turn pre ?s3 = (None, s3) \<and>
    get_prop (Some tc) ''function'' = Inr f \<and> get_prop f ''name'' = Inr name \<and>
    get_prop (Some tc) ''id'' = Inr tid \<and>
    step_do (tool_key env turn tid) 2 (tool_callback env tc)
      (agent_updateProgress (toolUpdate env name) s3) = (Inl e', s4)"
  then have lt: "turn < MAX_AGENT_TURNS"
    and step: "step_do (llm_key turn) 3 (llm_callback env (messages s))
      (agent_updateProgress (turnUpdate turn) s) = (Inr v, s2)"
    and valid: "isChatCompletionResponse v"
    and ch: "get_prop (Some v) ''choices'' = Inr (Some (JArr (c # cs)))"
    and msg: "get_prop (Some c) ''message'' = Inr msg"
    and cont: "get_prop msg ''content'' = Inr cont"
    and tcs: "get_prop msg ''tool_calls'' = Inr (Some (JArr ?tcs))"
    and fr: "get_prop (Some c) ''finish_reason'' = Inr fr" "fr \<noteq> Some (JStr ''stop'')"
    and pre: "tool_calls_loop env turn pre ?s3 = (None, s3)"
    and tc: "get_prop (Some tc) ''function'' = Inr f" "get_prop f ''name'' = Inr name"
      "get_prop (Some tc) ''id'' = Inr tid"
    and tstep: "step_do (tool_key env turn tid) 2 (tool_callback env tc)
      (agent_updateProgress (toolUpdate env name) s3) = (Inl e', s4)"
    by simp_all
  have truthy: "\<not> falsy (Some c)"
    using msg cont by (rule choice_with_message_truthy)
  have "tool_calls_loop env turn (tc # rest) s3 = (Some e', s4)"
    using tc tstep by (rule tool_calls_loop_step_failed)
  with pre have all: "tool_calls_loop env turn ?tcs ?s3 = (Some e', s4)"
    by (simp add: tool_calls_loop_append del: tool_calls_loop.simps)
  obtain x xs where xs: "?tcs = x # xs" by (cases pre) simp_all
  have "turn_body env turn s = handle_choice env turn (Some c) s2"
    using step valid ch truthy by (rule turn_body_chosen)
  also have "\<dots> = (case Some e' of Some e \<Rightarrow> Throw e | None \<Rightarrow> Continue, s4)"
    using handle_choice_tool_calls [OF msg cont tcs [unfolded xs] fr all [unfolded xs]] .
  finally have tb: "turn_body env turn s = (Throw e', s4)" by simp
  from loop_step [OF lt tb] show "loop env MAX_AGENT_TURNS turn s = (Inl e', s4)" by simp
  from tstep show "\<exists>err. e' = StepExhausted (tool_key env turn tid) err" by (rule step_do_Inl)
  from step_do_frame(2) [OF tstep]
  show "status (agent s4) = ''fetching''"
    by (simp add: updateProgress_def toolUpdate_def)
next
  let ?a = "updateProgress (agent s0) initialUpdate"
  let ?s = "agent_updateProgress initialUpdate
        (s0\<lparr>messages := [\<lparr>role = user, content = Some (JStr task), tool_calls = None,
                           tool_call_id = None\<rparr>]\<rparr>)"
  assume "run env MAX_AGENT_TURNS task s0 = (Inl e0, s0')"
  then have l: "loop env MAX_AGENT_TURNS 0 ?s = (Inl e0, s0')"
    by (simp add: run_def)
  have lt: "0 < MAX_AGENT_TURNS"
  proof (rule ccontr)
    assume "\<not> 0 < MAX_AGENT_TURNS"
    with l show False by (simp add: loop.simps)
  qed
  have nc: "\<forall>res'. (Inl e0 :: error + WorkflowResult) = Inr res' \<longrightarrow> wr_status res' \<noteq> complete"
    by simp
  from loop_running [OF l nc] lt obtain ns where
    ns: "notified s0' = notified ?s @ ns" "agent s0' = last (agent ?s # ns)"
      "\<forall>a\<in>set ns. (status a = ''analyzing'' \<or> status a = ''fetching'') \<and>
                  result a = result (agent ?s)"
      "ns \<noteq> []"
    by blast
  have 1: "notified s0' = notified s0 @ ?a # ns" using ns(1) by simp
  have 2: "\<forall>a\<in>set ns. status a = ''analyzing'' \<or> status a = ''fetching''"
    using ns(3) by blast
  have 3: "agent s0' = last ns" unfolding ns(2) using ns(4) by simp
  from 1 2 3 ns(4)
  show "\<exists>ns. notified s0' = notified s0 @ ?a # ns \<and>
         (\<forall>a\<in>set ns. status a = ''analyzing'' \<or> status a = ''fetching'') \<and>
         agent s0' = last ns \<and> ns \<noteq> []"
    by blast
  from l show "e0 = TypeError \<or> (\<exists>k err. e0 = StepExhausted k err)"
    by (rule loop_error)
  show "wsr_status (api_status (instance_status (Inl e0))) = ''error''"
    by (simp add: api_status_def instance_status_def)
next
  assume "step_do (llm_key turn) 3 (llm_callback env (messages s))
      (agent_updateProgress (turnUpdate turn) s) = (Inr v, s2) \<and> skips v"
  then show "turn_body env turn s = (Continue, s2)"
    by (intro turn_body_skips [of turn env s v s2]) simp_all
next
  assume a: "get_prop (Some tc) ''function'' = Inr f \<and> get_prop f ''arguments'' = Inr a \<and>
    JSON_parse env (to_string env a) = Some args \<and> get_prop f ''name'' = Inr name"
    and b: "name = Some (JStr ''search_repos'') \<and> \<not> isSearchReposInput args"
  then show "tool_callback env tc w = (Inr (JStr ''Invalid arguments for search_repos''), w)"
    by (intro tool_callback_invalid(1) [of tc f a env args name]) simp_all
next
  assume a: "get_prop (Some tc) ''function'' = Inr f \<and> get_prop f ''arguments'' = Inr a \<and>
    JSON_parse env (to_string env a) = Some args \<and> get_prop f ''name'' = Inr name"
    and b: "name = Some (JStr ''get_repo'') \<and> \<not> isGetRepoInput args"
  then show "tool_callback env tc w = (Inr (JStr ''Invalid arguments for get_repo''), w)"
    by (intro tool_callback_invalid(2) [of tc f a env args name]) simp_all
next
  assume a: "get_prop (Some tc) ''function'' = Inr f \<and> get_prop f ''arguments'' = Inr a \<and>
    JSON_parse env (to_string env a) = Some args \<and> get_prop f ''name'' = Inr name"
    and b: "name \<noteq> Some (JStr ''search_repos'') \<and> name \<noteq> Some (JStr ''get_repo'')"
  then show "tool_callback env tc w = (Inr (JStr (''Unknown tool: '' @ to_string env name)), w)"
    by (intro tool_callback_unknown [of tc f a env args name]) simp_all
next
  assume "get_prop (Some tc) ''function'' = Inr f \<and> get_prop f ''name'' = Inr name \<and>
    get_prop (Some tc) ''id'' = Inr tid \<and>
    step_do (tool_key env turn tid) 2 (tool_callback env tc)
      (agent_updateProgress (toolUpdate env name) s) = (Inr x, s5)"
  then show "tool_calls_loop env turn (tc # rest) s =
        tool_calls_loop env turn rest
          (s5\<lparr>messages := messages s5 @
             [\<lparr>role = tool, content = Some x, tool_calls = None, tool_call_id = tid\<rparr>]\<rparr>)"
    by (intro tool_calls_loop_step_done [of tc f name tid env turn s x s5]) simp_all
qed

theorem step_exhausted_aborts_run_witness:
  "fst (run (scripted_env []) 10 ''ping'' fresh) =
     Inl (StepExhausted ''llm-turn-0'' (Failure ''gateway down'')) \<and>
   fst (run (scripted_env [Inr (response [tool_choice ''tool_calls''
          [tool_call ''c1'' ''frobnicate'' ''{}'',
           tool_call ''c2'' ''search_repos'' ''{not json'']])]) 10 ''ping'' fresh) =
     Inl (StepExhausted ''tool-0-c2'' SyntaxError) \<and>
   (\<exists>ns. notified (snd (run (scripted_env []) 10 ''ping'' fresh)) =
       updateProgress initialState initialUpdate # ns \<and>
      list_all (\<lambda>a. status a = ''analyzing'' \<or> status a = ''fetching'') ns \<and>
      agent (snd (run (scripted_env []) 10 ''ping'' fresh)) = last ns \<and> ns \<noteq> []) \<and>
   wsr_status (api_status (instance_status (fst (run (scripted_env []) 10 ''ping'' fresh)))) =
     ''error'' \<and>
   fst (turn_body (scripted_env [Inr (response [JNull])]) 0 fresh) = Continue \<and>
   tool_callback (scripted_env []) (tool_call ''c1'' ''search_repos'' ''{}'') 0 =
     (Inr (JStr ''Invalid arguments for search_repos''), 0) \<and>
   tool_callback (scripted_env []) (tool_call ''c1'' ''get_repo'' ''{}'') 0 =
     (Inr (JStr ''Invalid arguments for get_repo''), 0) \<and>
   tool_callback (scripted_env []) (tool_call ''c1'' ''frobnicate'' ''{}'') 0 =
     (Inr (JStr ''Unknown tool: frobnicate''), 0) \<and>
   fst (tool_calls_loop (scripted_env []) 0 [tool_call ''c1'' ''frobnicate'' ''{}''] fresh) = None \<and>
   map content (messages
     (snd (tool_calls_loop (scripted_env []) 0 [tool_call ''c1'' ''frobnicate'' ''{}''] fresh))) =
     [Some (JStr ''Unknown tool: frobnicate'')]"
proof -
  let ?s = "agent_updateProgress initialUpdate
      (fresh\<lparr>messages := [\<lparr>role = user, content = Some (JStr ''ping''), tool_calls = None,
                             tool_call_id = None\<rparr>]\<rparr>)"
  let ?E1 = "scripted_env []"
  let ?e1 = "StepExhausted ''llm-turn-0'' (Failure ''gateway down'')"
  let ?step1 = "step_do (llm_key 0) 3 (llm_callback ?E1 (messages ?s))
      (agent_updateProgress (turnUpdate 0) ?s)"
  let ?tc1 = "tool_call ''c1'' ''frobnicate'' ''{}''"
  let ?tc = "tool_call ''c2'' ''search_repos'' ''{not json''"
  let ?c = "tool_choice ''tool_calls'' [?tc1, ?tc]"
  let ?v = "response [?c]"
  let ?E2 = "scripted_env [Inr ?v]"
  let ?e2 = "StepExhausted ''tool-0-c2'' SyntaxError"
  let ?step2 = "step_do (llm_key 0) 3 (llm_callback ?E2 (messages ?s))
      (agent_updateProgress (turnUpdate 0) ?s)"
  let ?msg = "JObj [(''role'', JStr ''assistant''), (''content'', JNull),
      (''tool_calls'', JArr [?tc1, ?tc])]"
  let ?f = "JObj [(''name'', JStr ''search_repos''), (''arguments'', JStr ''{not json'')]"
  let ?pre = "tool_calls_loop ?E2 0 [?tc1]
      ((snd ?step2)\<lparr>messages := messages (snd ?step2) @
           [\<lparr>role = assistant, content = Some JNull,
             tool_calls = Some (JArr ([?tc1] @ ?tc # [])), tool_call_id = None\<rparr>]\<rparr>)"
  let ?tstep = "step_do (tool_key ?E2 0 (Some (JStr ''c2''))) 2 (tool_callback ?E2 ?tc)
      (agent_updateProgress (toolUpdate ?E2 (Some (JStr ''search_repos''))) (snd ?pre))"
  have lt: "(0::nat) < 10" by simp
  have "fst ?step1 = Inl ?e1" by code_simp
  then have step1: "?step1 = (Inl ?e1, snd ?step1)" by (metis prod.collapse)
  have "fst ?step2 = Inr ?v" by code_simp
  then have step2: "?step2 = (Inr ?v, snd ?step2)" by (metis prod.collapse)
  have valid: "isChatCompletionResponse ?v"
    by (simp add: isChatCompletionResponse_iff response_def)
  have ch: "get_prop (Some ?v) ''choices'' = Inr (Some (JArr (?c # [])))"
    by (simp add: response_def)
  have msg: "get_prop (Some ?c) ''message'' = Inr (Some ?msg)"
    by (simp add: tool_choice_def)
  have cont: "get_prop (Some ?msg) ''content'' = Inr (Some JNull)" by simp
  have tcs: "get_prop (Some ?msg) ''tool_calls'' = Inr (Some (JArr ([?tc1] @ ?tc # [])))" by simp
  have fr: "get_prop (Some ?c) ''finish_reason'' = Inr (Some (JStr ''tool_calls''))"
    "Some (JStr ''tool_calls'') \<noteq> Some (JStr ''stop'')"
    by (simp_all add: tool_choice_def)
  have "fst ?pre = None" by code_simp
  then have pre: "?pre = (None, snd ?pre)" by (metis prod.collapse)
  have tc: "get_prop (Some ?tc) ''function'' = Inr (Some ?f)"
    "get_prop (Some ?f) ''name'' = Inr (Some (JStr ''search_repos''))"
    "get_prop (Some ?tc) ''id'' = Inr (Some (JStr ''c2''))"
    by (simp_all add: tool_call_def)
  have "fst ?tstep = Inl ?e2" by code_simp
  then have tstep: "?tstep = (Inl ?e2, snd ?tstep)" by (metis prod.collapse)
  from step_exhausted_aborts_run [where env = ?E1 and turn = 0 and MAX_AGENT_TURNS = 10
      and s = ?s and e = ?e1 and ?s2.0 = "snd ?step1", THEN conjunct1] lt step1
  have a: "loop ?E1 10 0 ?s = (Inl ?e1, snd ?step1)"
    by blast
  then have r1: "run ?E1 10 ''ping'' fresh = (Inl ?e1, snd (run ?E1 10 ''ping'' fresh))"
    by (simp add: run_def)
  note c1 = step_exhausted_aborts_run [where env = ?E1 and MAX_AGENT_TURNS = 10
      and task = "''ping''" and ?s0.0 = fresh and ?e0.0 = ?e1
      and ?s0' = "snd (run ?E1 10 ''ping'' fresh)",
      THEN conjunct2, THEN conjunct2, THEN conjunct1]
  from c1 r1
  obtain ns where ns: "notified (snd (run ?E1 10 ''ping'' fresh)) =
        notified fresh @ updateProgress (agent fresh) initialUpdate # ns"
      "\<forall>a\<in>set ns. status a = ''analyzing'' \<or> status a = ''fetching''"
      "agent (snd (run ?E1 10 ''ping'' fresh)) = last ns" "ns \<noteq> []"
    by blast
  from step_exhausted_aborts_run [where env = ?E2 and turn = 0 and MAX_AGENT_TURNS = 10
      and s = ?s and v = ?v and ?s2.0 = "snd ?step2" and c = ?c and cs = "[]"
      and msg = "Some ?msg" and cont = "Some JNull" and pre = "[?tc1]" and tc = ?tc
      and rest = "[]" and ?s3.0 = "snd ?pre"
      and fr = "Some (JStr ''tool_calls'')" and f = "Some ?f"
      and name = "Some (JStr ''search_repos'')" and tid = "Some (JStr ''c2'')"
      and e' = ?e2 and ?s4.0 = "snd ?tstep", THEN conjunct2, THEN conjunct1]
    lt step2 valid ch msg cont tcs fr pre tc tstep
  have b: "loop ?E2 10 0 ?s = (Inl ?e2, snd ?tstep)"
    by blast
  have 1: "fst (run ?E1 10 ''ping'' fresh) = Inl ?e1" using a by (simp add: run_def)
  have 2: "fst (run ?E2 10 ''ping'' fresh) = Inl ?e2" using b by (simp add: run_def)
  have 3: "notified (snd (run ?E1 10 ''ping'' fresh)) =
       updateProgress initialState initialUpdate # ns"
    using ns(1) by (simp add: fresh_def)
  have 4: "list_all (\<lambda>a. status a = ''analyzing'' \<or> status a = ''fetching'') ns"
    using ns(2) by (simp add: list_all_iff)
  from c1 r1 have "wsr_status (api_status (instance_status (Inl ?e1))) = ''error''"
    by blast
  then have 5: "wsr_status (api_status (instance_status (fst (run ?E1 10 ''ping'' fresh)))) =
      ''error''"
    by (simp only: 1)
  let ?E3 = "scripted_env [Inr (response [JNull])]"
  let ?step3 = "step_do (llm_key 0) 3 (llm_callback ?E3 (messages fresh))
      (agent_updateProgress (turnUpdate 0) fresh)"
  have "fst ?step3 = Inr (response [JNull])" by code_simp
  then have step3: "?step3 = (Inr (response [JNull]), snd ?step3)" by (metis prod.collapse)
  have sk: "skips (response [JNull])" by (simp add: skips_def response_def)
  from step_exhausted_aborts_run [where env = ?E3 and turn = 0 and s = fresh
      and v = "response [JNull]" and ?s2.0 = "snd ?step3",
      THEN conjunct2, THEN conjunct2, THEN conjunct2, THEN conjunct1] step3 sk
  have "turn_body ?E3 0 fresh = (Continue, snd ?step3)" by blast
  then have 6: "fst (turn_body ?E3 0 fresh) = Continue" by simp
  have parse: "JSON_parse ?E1 (to_string ?E1 (Some (JStr ''{}''))) = Some (JObj [])"
    by (simp add: scripted_env_def to_string_def example_parse_def)
  have inv: "\<not> isSearchReposInput (JObj [])" "\<not> isGetRepoInput (JObj [])"
    by (simp_all add: isSearchReposInput_def isGetRepoInput_def)
  have fn: "get_prop (Some (tool_call ''c1'' n ''{}'')) ''function'' =
      Inr (Some (JObj [(''name'', JStr n), (''arguments'', JStr ''{}'')]))"
    "get_prop (Some (JObj [(''name'', JStr n), (''arguments'', JStr ''{}'')])) ''arguments'' =
      Inr (Some (JStr ''{}''))"
    "get_prop (Some (JObj [(''name'', JStr n), (''arguments'', JStr ''{}'')])) ''name'' =
      Inr (Some (JStr n))"
    "get_prop (Some (tool_call ''c1'' n ''{}'')) ''id'' = Inr (Some (JStr ''c1''))" for n
    by (simp_all add: tool_call_def)
  have names: "Some (JStr ''frobnicate'') \<noteq> Some (JStr ''search_repos'')"
    "Some (JStr ''frobnicate'') \<noteq> Some (JStr ''get_repo'')"
    by simp_all
  from step_exhausted_aborts_run [where env = ?E1 and a = "Some (JStr ''{}'')"
      and args = "JObj []" and w = 0 and tc = "tool_call ''c1'' ''search_repos'' ''{}''"
      and f = "Some (JObj [(''name'', JStr ''search_repos''), (''arguments'', JStr ''{}'')])"
      and name = "Some (JStr ''search_repos'')",
      THEN conjunct2, THEN conjunct2, THEN conjunct2, THEN conjunct2, THEN conjunct1]
    fn [of "''search_repos''"] parse inv
  have 7: "tool_callback ?E1 (tool_call ''c1'' ''search_repos'' ''{}'') 0 =
      (Inr (JStr ''Invalid arguments for search_repos''), 0)"
    by blast
  from step_exhausted_aborts_run [where env = ?E1 and a = "Some (JStr ''{}'')"
      and args = "JObj []" and w = 0 and tc = "tool_call ''c1'' ''get_repo'' ''{}''"
      and f = "Some (JObj [(''name'', JStr ''get_repo''), (''arguments'', JStr ''{}'')])"
      and name = "Some (JStr ''get_repo'')",
      THEN conjunct2, THEN conjunct2, THEN conjunct2, THEN conjunct2, THEN conjunct1]
    fn [of "''get_repo''"] parse inv
  have 8: "tool_callback ?E1 (tool_call ''c1'' ''get_repo'' ''{}'') 0 =
      (Inr (JStr ''Invalid arguments for get_repo''), 0)"
    by blast
  from step_exhausted_aborts_run [where env = ?E1 and a = "Some (JStr ''{}'')"
      and args = "JObj []" and w = 0 and tc = "tool_call ''c1'' ''frobnicate'' ''{}''"
      and f = "Some (JObj [(''name'', JStr ''frobnicate''), (''arguments'', JStr ''{}'')])"
      and name = "Some (JStr ''frobnicate'')",
      THEN conjunct2, THEN conjunct2, THEN conjunct2, THEN conjunct2, THEN conjunct1]
    fn [of "''frobnicate''"] parse names
  have "tool_callback ?E1 (tool_call ''c1'' ''frobnicate'' ''{}'') 0 =
      (Inr (JStr (''Unknown tool: '' @ to_string ?E1 (Some (JStr ''frobnicate'')))), 0)"
    by blast
  then have 9: "tool_callback ?E1 (tool_call ''c1'' ''frobnicate'' ''{}'') 0 =
      (Inr (JStr ''Unknown tool: frobnicate''), 0)"
    by (simp add: to_string_def)
  let ?tcf = "tool_call ''c1'' ''frobnicate'' ''{}''"
  let ?ff = "Some (JObj [(''name'', JStr ''frobnicate''), (''arguments'', JStr ''{}'')])"
  let ?step5 = "step_do (tool_key ?E1 0 (Some (JStr ''c1''))) 2 (tool_callback ?E1 ?tcf)
      (agent_updateProgress (toolUpdate ?E1 (Some (JStr ''frobnicate''))) fresh)"
  have "fst ?step5 = Inr (JStr ''Unknown tool: frobnicate'')" by code_simp
  then have step5: "?step5 = (Inr (JStr ''Unknown tool: frobnicate''), snd ?step5)"
    by (metis prod.collapse)
  have m5: "messages (snd ?step5) = []"
    using step_do_frame(1) [OF step5] by (simp add: fresh_def)
  from step_exhausted_aborts_run [where env = ?E1 and turn = 0 and s = fresh and tc = ?tcf
      and f = ?ff and name = "Some (JStr ''frobnicate'')" and tid = "Some (JStr ''c1'')"
      and x = "JStr ''Unknown tool: frobnicate''" and ?s5.0 = "snd ?step5" and rest = "[]",
      THEN conjunct2, THEN conjunct2, THEN conjunct2, THEN conjunct2, THEN conjunct2]
    fn(1,3,4) [of "''frobnicate''"] step5
  have l5: "tool_calls_loop ?E1 0 (?tcf # []) fresh =
      tool_calls_loop ?E1 0 []
        ((snd ?step5)\<lparr>messages := messages (snd ?step5) @
           [\<lparr>role = tool, content = Some (JStr ''Unknown tool: frobnicate''),
             tool_calls = None, tool_call_id = Some (JStr ''c1'')\<rparr>]\<rparr>)"
    by blast
  have 10: "fst (tool_calls_loop ?E1 0 [?tcf] fresh) = None"
    "map content (messages (snd (tool_calls_loop ?E1 0 [?tcf] fresh))) =
      [Some (JStr ''Unknown tool: frobnicate'')]"
    unfolding l5 using m5 by simp_all
  from 3 4 ns(3,4) have
    "\<exists>ns. notified (snd (run ?E1 10 ''ping'' fresh)) =
       updateProgress initialState initialUpdate # ns \<and>
      list_all (\<lambda>a. status a = ''analyzing'' \<or> status a = ''fetching'') ns \<and>
      agent (snd (run ?E1 10 ''ping'' fresh)) = last ns \<and> ns \<noteq> []"
    by blast
  with 1 2 5 6 7 8 9 10 show ?thesis by (intro conjI)
qed

text \<open>
  C6, on examples. With a gateway that is down, the LLM step of turn 0 fails three times
  and the run ends with the step's error, while the agent's state stays
  \<^verbatim>\<open>analyzing\<close>: no \<^verbatim>\<open>error\<close> state is published. And an answer that passes
  \<open>isChatCompletionResponse\<close> but whose first choice has no \<^verbatim>\<open>message\<close> ends the run
  with a TypeError, an error that is not the exhaustion of a step.
\<close>

theorem step_exhausted_counterexample:
  "fst (run (scripted_env []) 10 ''ping'' fresh) =
     Inl (StepExhausted ''llm-turn-0'' (Failure ''gateway down'')) \<and>
   agent (snd (run (scripted_env []) 10 ''ping'' fresh)) =
     \<lparr>status = ''analyzing'', message = ''Processing turn 1...'', result = Some (JStr [])\<rparr> \<and>
   map status (notified (snd (run (scripted_env []) 10 ''ping'' fresh))) =
     [''searching'', ''analyzing''] \<and>
   fst (run (scripted_env [Inr (response [JObj []])]) 10 ''ping'' fresh) = Inl TypeError"
  by code_simp

text \<open>
  C7. From any point of the loop to the end of the run the earlier \<open>messages\<close> are a
  prefix of the later ones: nothing is removed, changed or reordered. The transcript of
  every run, however it ends, starts with the user message and is \<open>matched\<close>: the
  \<^verbatim>\<open>tool_call_id\<close> of every tool message is the id of a tool call requested by an
  assistant message before it. Within a turn, what is appended is the assistant message
  followed by tool messages only, whose ids are, in order, the ids of the requested tool
  calls: of all of them when the turn runs to its end, of the first ones when it is cut
  short by an error.
\<close>

theorem transcript_append_only:
  "(loop env MAX_AGENT_TURNS turn s = (r, s') \<longrightarrow>
      prefix (messages s) (messages s') \<and> (matched (messages s) \<longrightarrow> matched (messages s'))) \<and>
   (run env MAX_AGENT_TURNS task s0 = (r0, s0') \<longrightarrow>
      prefix [\<lparr>role = user, content = Some (JStr task), tool_calls = None, tool_call_id = None\<rparr>]
        (messages s0') \<and>
      matched (messages s0')) \<and>
   (turn_body env turn s = (fl, s1) \<longrightarrow>
      messages s1 = messages s \<or>
      (\<exists>cont tcs ms. messages s1 =
          messages s @ \<lparr>role = assistant, content = cont, tool_calls = tcs, tool_call_id = None\<rparr> # ms \<and>
         (\<forall>m\<in>set ms. role m = tool) \<and>
         map tool_call_id ms = map tool_call_id_of (take (length ms) (requested tcs)) \<and>
         (fl = Continue \<longrightarrow> length ms = length (requested tcs))))"
proof (intro conjI impI)
  assume "loop env MAX_AGENT_TURNS turn s = (r, s')"
  from loop_messages [OF this]
  show "prefix (messages s) (messages s')" "matched (messages s) \<Longrightarrow> matched (messages s')"
    by simp_all
next
  let ?u = "\<lparr>role = user, content = Some (JStr task), tool_calls = None, tool_call_id = None\<rparr>"
  assume "run env MAX_AGENT_TURNS task s0 = (r0, s0')"
  then have "loop env MAX_AGENT_TURNS 0
      (agent_updateProgress initialUpdate (s0\<lparr>messages := [?u]\<rparr>)) = (r0, s0')"
    by (simp add: run_def)
  from loop_messages [OF this] matched_user
  show "prefix [?u] (messages s0')" "matched (messages s0')"
    by simp_all
next
  assume "turn_body env turn s = (fl, s1)"
  then show "messages s1 = messages s \<or>
      (\<exists>cont tcs ms. messages s1 =
          messages s @ \<lparr>role = assistant, content = cont, tool_calls = tcs, tool_call_id = None\<rparr> # ms \<and>
         (\<forall>m\<in>set ms. role m = tool) \<and>
         map tool_call_id ms = map tool_call_id_of (take (length ms) (requested tcs)) \<and>
         (fl = Continue \<longrightarrow> length ms = length (requested tcs)))"
    by (rule turn_body_order)
qed


theorem transcript_append_only_witness:
  "matched (messages (snd (run (scripted_env
      [Inr (response [tool_choice ''tool_calls''
          [tool_call ''c1'' ''search_repos'' query_x, tool_call ''c2'' ''frobnicate'' ''{}'']]),
       Inr (response [stop_choice ''done''])]) 10 ''ping'' fresh))) \<and>
   map role (messages (snd (run (scripted_env
      [Inr (response [tool_choice ''tool_calls''
          [tool_call ''c1'' ''search_repos'' query_x, tool_call ''c2'' ''frobnicate'' ''{}'']]),
       Inr (response [stop_choice ''done''])]) 10 ''ping'' fresh))) =
     [user, assistant, tool, tool, assistant] \<and>
   map tool_call_id (messages (snd (run (scripted_env
      [Inr (response [tool_choice ''tool_calls''
          [tool_call ''c1'' ''search_repos'' query_x, tool_call ''c2'' ''frobnicate'' ''{}'']]),
       Inr (response [stop_choice ''done''])]) 10 ''ping'' fresh))) =
     [None, None, Some (JStr ''c1''), Some (JStr ''c2''), None] \<and>
   map content (messages (snd (run (scripted_env
      [Inr (response [tool_choice ''tool_calls''
          [tool_call ''c1'' ''search_repos'' query_x, tool_call ''c2'' ''frobnicate'' ''{}'']]),
       Inr (response [stop_choice ''done''])]) 10 ''ping'' fresh))) =
     [Some (JStr ''ping''), Some JNull, Some (JStr ''[]''),
      Some (JStr ''Unknown tool: frobnicate''), Some (JStr ''done'')]"
proof -
  let ?E = "scripted_env
      [Inr (response [tool_choice ''tool_calls''
          [tool_call ''c1'' ''search_repos'' query_x, tool_call ''c2'' ''frobnicate'' ''{}'']]),
       Inr (response [stop_choice ''done''])]"
  let ?s = "agent_updateProgress initialUpdate
      (fresh\<lparr>messages := [\<lparr>role = user, content = Some (JStr ''ping''), tool_calls = None,
                             tool_call_id = None\<rparr>]\<rparr>)"
  have eval: "map role (messages (snd (run ?E 10 ''ping'' fresh))) =
      [user, assistant, tool, tool, assistant]"
    "map tool_call_id (messages (snd (run ?E 10 ''ping'' fresh))) =
      [None, None, Some (JStr ''c1''), Some (JStr ''c2''), None]"
    "map content (messages (snd (run ?E 10 ''ping'' fresh))) =
      [Some (JStr ''ping''), Some JNull, Some (JStr ''[]''),
       Some (JStr ''Unknown tool: frobnicate''), Some (JStr ''done'')]"
    by code_simp+
  from transcript_append_only [where env = ?E and MAX_AGENT_TURNS = 10 and turn = 0 and s = ?s
      and r = "fst (loop ?E 10 0 ?s)" and s' = "snd (loop ?E 10 0 ?s)"
      and task = "''ping''" and ?s0.0 = fresh
      and ?r0.0 = "fst (run ?E 10 ''ping'' fresh)" and ?s0' = "snd (run ?E 10 ''ping'' fresh)"
      and fl = "fst (turn_body ?E 0 ?s)" and ?s1.0 = "snd (turn_body ?E 0 ?s)"]
  have "matched (messages (snd (run ?E 10 ''ping'' fresh)))"
    by simp
  with eval show ?thesis by blast
qed

text \<open>
  C8. \<open>updateProgress\<close> merges field by field: \<open>status\<close> and \<open>message\<close>, which every
  update carries, are overwritten; \<open>result\<close> is overwritten when the update has the key
  and kept when it has not. The first state \<^verbatim>\<open>run\<close> publishes is the merge of the
  initial update, whose \<open>result\<close> is the empty string, so that the result of an earlier
  run is cleared.
\<close>

theorem updateProgress_merge:
  "status (updateProgress st u) = pu_status u \<and>
   message (updateProgress st u) = pu_message u \<and>
   (\<forall>r. pu_result u = Some r \<longrightarrow> result (updateProgress st u) = r) \<and>
   (pu_result u = None \<longrightarrow> result (updateProgress st u) = result st) \<and>
   (\<exists>ns. notified (snd (run env MAX_AGENT_TURNS task s)) =
          notified s @ updateProgress (agent s) initialUpdate # ns) \<and>
   result (updateProgress (agent s) initialUpdate) = Some (JStr [])"
proof -
  obtain r s' where run: "run env MAX_AGENT_TURNS task s = (r, s')" by force
  from loop_iterations [OF run [unfolded run_def]]
  have "\<exists>ns. notified s' = notified s @ updateProgress (agent s) initialUpdate # ns"
    by auto
  then show ?thesis
    by (simp add: run updateProgress_def initialUpdate_def)
qed

theorem updateProgress_merge_witness:
  "updateProgress \<lparr>status = ''complete'', message = ''Analysis complete!'', result = Some (JStr ''old'')\<rparr>
     (turnUpdate 0) =
     \<lparr>status = ''analyzing'', message = ''Processing turn 1...'', result = Some (JStr ''old'')\<rparr> \<and>
   updateProgress \<lparr>status = ''complete'', message = ''Analysis complete!'', result = Some (JStr ''old'')\<rparr>
     initialUpdate =
     \<lparr>status = ''searching'', message = ''Starting analysis...'', result = Some (JStr [])\<rparr>"
  using
    updateProgress_merge [of "\<lparr>status = ''complete'', message = ''Analysis complete!'', result = Some (JStr ''old'')\<rparr>"
      "turnUpdate 0" "scripted_env []" 0 "[]" fresh]
    updateProgress_merge [of "\<lparr>status = ''complete'', message = ''Analysis complete!'', result = Some (JStr ''old'')\<rparr>"
      initialUpdate "scripted_env []" 0 "[]" fresh]
  by (simp add: turnUpdate_def initialUpdate_def show_nat.simps digit_def)

text \<open>
  C9. If the first choice has \<^verbatim>\<open>finish_reason\<close> \<^verbatim>\<open>stop\<close> and its message also
  has a non-empty \<^verbatim>\<open>tool_calls\<close> array, the run completes at once: the step records
  and the outside world are those left by the LLM step (no tool step ran), the only
  notification after it is the completion, and the transcript ends with the assistant
  message that carries the unanswered tool calls.
\<close>

theorem stop_with_tool_calls_completes:
  assumes "turn < MAX_AGENT_TURNS"
    and "step_do (llm_key turn) 3 (llm_callback env (messages s))
           (agent_updateProgress (turnUpdate turn) s) = (Inr v, s2)"
    and "isChatCompletionResponse v"
    and "get_prop (Some v) ''choices'' = Inr (Some (JArr (c # cs)))"
    and "get_prop (Some c) ''message'' = Inr msg"
    and "get_prop msg ''content'' = Inr cont"
    and "get_prop msg ''tool_calls'' = Inr (Some (JArr (tc # rest)))"
    and "get_prop (Some c) ''finish_reason'' = Inr (Some (JStr ''stop''))"
  shows "\<exists>s'. loop env MAX_AGENT_TURNS turn s =
           (Inr \<lparr>wr_status = complete, turns = turn + 1, wr_result = Some (or_null cont)\<rparr>, s') \<and>
         messages s' = messages s @
           [\<lparr>role = assistant, content = cont, tool_calls = Some (JArr (tc # rest)),
             tool_call_id = None\<rparr>] \<and>
         steps s' = steps s2 \<and> world s' = world s2 \<and>
         notified s' = notified s2 @
           [\<lparr>status = ''complete'', message = ''Analysis complete!'',
             result = or_undefined cont\<rparr>]"
proof -
  let ?tcs = "Some (JArr (tc # rest))"
  let ?s3 = "s2\<lparr>messages := messages s2 @
           [\<lparr>role = assistant, content = cont, tool_calls = ?tcs, tool_call_id = None\<rparr>]\<rparr>"
  let ?s' = "agent_updateProgress (completeUpdate cont) ?s3"
  let ?res = "\<lparr>wr_status = complete, turns = turn + 1, wr_result = Some (or_null cont)\<rparr>"
  have truthy: "\<not> falsy (Some c)"
    using assms(5,6) by (rule choice_with_message_truthy)
  have stop: "get_prop (Some c) ''finish_reason'' = Inr (Some (JStr ''stop'')) \<or> falsy ?tcs \<or>
      ?tcs = Some (JArr [])"
    using assms(8) by simp
  have "turn_body env turn s = handle_choice env turn (Some c) s2"
    using assms(2,3,4) truthy by (rule turn_body_chosen)
  also have "\<dots> = (Return ?res, ?s')"
    using assms(5,6,7) stop by (rule handle_choice_stop)
  finally have tb: "turn_body env turn s = (Return ?res, ?s')" .
  have "loop env MAX_AGENT_TURNS turn s = (Inr ?res, ?s')"
    using loop_step [OF assms(1) tb] by simp
  moreover have "messages s2 = messages s"
    using step_do_frame(1) [OF assms(2)] by simp
  then have "messages ?s' = messages s @
      [\<lparr>role = assistant, content = cont, tool_calls = ?tcs, tool_call_id = None\<rparr>]"
    by simp
  moreover have "steps ?s' = steps s2" "world ?s' = world s2" by simp_all
  moreover have "notified ?s' = notified s2 @
           [\<lparr>status = ''complete'', message = ''Analysis complete!'',
             result = or_undefined cont\<rparr>]"
    by (simp add: updateProgress_def completeUpdate_def)
  ultimately show ?thesis by blast
qed

theorem stop_with_tool_calls_completes_witness:
  "\<exists>s'. run (scripted_env
            [Inr (response [tool_choice ''stop'' [tool_call ''c1'' ''search_repos'' ''{}'']])])
          10 ''ping'' fresh =
         (Inr \<lparr>wr_status = complete, turns = 1, wr_result = Some JNull\<rparr>, s') \<and>
       map role (messages s') = [user, assistant] \<and>
       map fst (steps s') = [''llm-turn-0''] \<and> world s' = 1"
proof -
  let ?tc = "tool_call ''c1'' ''search_repos'' ''{}''"
  let ?v = "response [tool_choice ''stop'' [?tc]]"
  let ?E = "scripted_env [Inr ?v]"
  let ?s = "agent_updateProgress initialUpdate
      (fresh\<lparr>messages := [\<lparr>role = user, content = Some (JStr ''ping''), tool_calls = None,
                             tool_call_id = None\<rparr>]\<rparr>)"
  let ?step = "step_do (llm_key 0) 3 (llm_callback ?E (messages ?s))
      (agent_updateProgress (turnUpdate 0) ?s)"
  let ?msg = "JObj [(''role'', JStr ''assistant''), (''content'', JNull),
      (''tool_calls'', JArr [?tc])]"
  have "fst ?step = Inr ?v" by code_simp
  then have step: "?step = (Inr ?v, snd ?step)"
    by (metis prod.collapse)
  have s2: "map fst (steps (snd ?step)) = [''llm-turn-0'']" "world (snd ?step) = 1"
    by code_simp+
  have valid: "isChatCompletionResponse ?v"
    by (simp add: isChatCompletionResponse_iff response_def)
  have ch: "get_prop (Some ?v) ''choices'' = Inr (Some (JArr (tool_choice ''stop'' [?tc] # [])))"
    by (simp add: response_def)
  have msg: "get_prop (Some (tool_choice ''stop'' [?tc])) ''message'' = Inr (Some ?msg)"
    by (simp add: tool_choice_def)
  have cont: "get_prop (Some ?msg) ''content'' = Inr (Some JNull)" by simp
  have tcs: "get_prop (Some ?msg) ''tool_calls'' = Inr (Some (JArr (?tc # [])))" by simp
  have fin: "get_prop (Some (tool_choice ''stop'' [?tc])) ''finish_reason'' =
      Inr (Some (JStr ''stop''))"
    by (simp add: tool_choice_def)
  have "(0::nat) < 10" by simp
  from stop_with_tool_calls_completes [OF this step valid ch msg cont tcs fin] s2
  show ?thesis by (auto simp: run_def fresh_def)
qed

text \<open>
  C10. A run that ends with \<open>max_turns_reached\<close> has published, after the initial
  update, only \<^verbatim>\<open>analyzing\<close> and \<^verbatim>\<open>fetching\<close> states, and the agent's state at the
  end is the last of them: its status is \<^verbatim>\<open>analyzing\<close> or \<^verbatim>\<open>fetching\<close> (or
  \<^verbatim>\<open>searching\<close>, when \<open>MAX_AGENT_TURNS = 0\<close> and the loop never ran), its result the empty
  string of the initial update. Only \<open>reset\<close> brings it back to \<^verbatim>\<open>idle\<close>.
\<close>

theorem max_turns_reached_publishes_nothing_final:
  assumes "run env MAX_AGENT_TURNS task s = (Inr res, s')" and "wr_status res = max_turns_reached"
  shows "\<exists>ns. notified s' = notified s @ updateProgress (agent s) initialUpdate # ns \<and>
     (\<forall>a\<in>set ns. status a = ''analyzing'' \<or> status a = ''fetching'') \<and>
     agent s' = last (updateProgress (agent s) initialUpdate # ns) \<and>
     (if 0 < MAX_AGENT_TURNS
      then status (agent s') = ''analyzing'' \<or> status (agent s') = ''fetching''
      else status (agent s') = ''searching'') \<and>
     result (agent s') = Some (JStr []) \<and>
     status (agent (agent_reset s')) = ''idle''"
proof -
  let ?a = "updateProgress (agent s) initialUpdate"
  let ?s = "agent_updateProgress initialUpdate
        (s\<lparr>messages := [\<lparr>role = user, content = Some (JStr task), tool_calls = None,
                          tool_call_id = None\<rparr>]\<rparr>)"
  have l: "loop env MAX_AGENT_TURNS 0 ?s = (Inr res, s')"
    using assms(1) by (simp add: run_def)
  have nc: "\<forall>res'. Inr res = Inr res' \<longrightarrow> wr_status res' \<noteq> complete"
    using assms(2) by simp
  have a: "agent ?s = ?a" by simp
  have ra: "result ?a = Some (JStr [])" "status ?a = ''searching''"
    by (simp_all add: updateProgress_def initialUpdate_def)
  from loop_running [OF l nc] obtain ns where
    ns: "notified s' = notified ?s @ ns" "agent s' = last (agent ?s # ns)"
      "\<forall>a\<in>set ns. (status a = ''analyzing'' \<or> status a = ''fetching'') \<and>
                  result a = result (agent ?s)"
      "0 < MAX_AGENT_TURNS \<longrightarrow> ns \<noteq> []"
    by blast
  have 1: "notified s' = notified s @ ?a # ns" using ns(1) by simp
  have 2: "\<forall>a\<in>set ns. status a = ''analyzing'' \<or> status a = ''fetching''"
    using ns(3) by blast
  have 3: "agent s' = last (?a # ns)" using ns(2) by (simp only: a)
  have 4: "if 0 < MAX_AGENT_TURNS
      then status (agent s') = ''analyzing'' \<or> status (agent s') = ''fetching''
      else status (agent s') = ''searching''"
  proof (cases "0 < MAX_AGENT_TURNS")
    case True
    with ns(4) have "ns \<noteq> []" by simp
    from last_in_set [OF this 3] 2 True show ?thesis by simp
  next
    case False
    then have "MAX_AGENT_TURNS = 0" by simp
    with l have "s' = ?s" by (simp add: loop.simps)
    with ra(2) False show ?thesis by simp
  qed
  have 5: "result (agent s') = Some (JStr [])"
  proof (rule last_result [OF 3 ra(1)])
    show "\<forall>b\<in>set ns. (status b = ''analyzing'' \<or> status b = ''fetching'') \<and>
        result b = Some (JStr [])"
      using ns(3) ra(1) by (simp only: a)
  qed
  have 6: "status (agent (agent_reset s')) = ''idle''"
    by (simp add: agent_reset_def reset_def)
  from 1 2 3 4 5 6 show ?thesis by blast
qed


theorem max_turns_reached_publishes_nothing_final_witness:
  "fst (run (constant_env (response [tool_choice ''tool_calls''
              [tool_call ''c1'' ''frobnicate'' ''{}'']])) 3 ''ping'' fresh) =
     Inr \<lparr>wr_status = max_turns_reached, turns = 3, wr_result = None\<rparr> \<and>
   agent (snd (run (constant_env (response [tool_choice ''tool_calls''
              [tool_call ''c1'' ''frobnicate'' ''{}'']])) 3 ''ping'' fresh)) =
     \<lparr>status = ''fetching'', message = ''Using tool: frobnicate...'', result = Some (JStr [])\<rparr>"
proof -
  let ?E = "constant_env (response [tool_choice ''tool_calls''
              [tool_call ''c1'' ''frobnicate'' ''{}'']])"
  let ?res = "\<lparr>wr_status = max_turns_reached, turns = 3, wr_result = None\<rparr>"
  have r: "fst (run ?E 3 ''ping'' fresh) = Inr ?res"
    by code_simp
  then have run: "run ?E 3 ''ping'' fresh = (Inr ?res, snd (run ?E 3 ''ping'' fresh))"
    by (metis prod.collapse)
  have st: "status (agent (snd (run ?E 3 ''ping'' fresh))) = ''fetching''"
    "message (agent (snd (run ?E 3 ''ping'' fresh))) = ''Using tool: frobnicate...''"
    by code_simp+
  have "wr_status ?res = max_turns_reached" by simp
  from max_turns_reached_publishes_nothing_final [OF run this]
  have "result (agent (snd (run ?E 3 ''ping'' fresh))) = Some (JStr [])"
    by blast
  with st have "agent (snd (run ?E 3 ''ping'' fresh)) =
     \<lparr>status = ''fetching'', message = ''Using tool: frobnicate...'', result = Some (JStr [])\<rparr>"
    by (cases "agent (snd (run ?E 3 ''ping'' fresh))") simp
  with r show ?thesis by blast
qed

end
